theory Spec2Isabelle
  imports Main
begin

section \<open>Strings\<close>

text \<open>
  A Python \<open>str\<close> is a sequence of Unicode code points. The rule line of the message is
  made of U+2500, and \<open>str.strip\<close> removes Unicode white space, so a string is modelled
  as the list of its code points; \<open>lit\<close> reads an ASCII literal of the source.
\<close>

type_synonym pystr = "nat list"

definition lit :: "string \<Rightarrow> pystr" where
  "lit s = map of_char s"

definition percent :: nat where
  "percent = 37"

definition newline :: nat where
  "newline = 10"

text \<open>The code points \<open>str.strip()\<close> removes (those \<open>str.isspace\<close> accepts).\<close>

definition is_space :: "nat \<Rightarrow> bool" where
  "is_space c =
     (c \<in> {9, 10, 11, 12, 13, 28, 29, 30, 31, 32, 133, 160, 5760,
            8192, 8193, 8194, 8195, 8196, 8197, 8198, 8199, 8200, 8201, 8202,
            8232, 8233, 8239, 8287, 12288})"

definition strip :: "pystr \<Rightarrow> pystr" where
  "strip v = rev (dropWhile is_space (rev (dropWhile is_space v)))"

text \<open>\<open>v.startswith(p)\<close>.\<close>

definition startswith :: "pystr \<Rightarrow> pystr \<Rightarrow> bool" where
  "startswith v p = (take (length p) v = p)"

text \<open>\<open>sep.join(xs)\<close>.\<close>

fun join :: "pystr \<Rightarrow> pystr list \<Rightarrow> pystr" where
  "join sep [] = []"
| "join sep [x] = x"
| "join sep (x # y # ys) = x @ sep @ join sep (y # ys)"

text \<open>\<open>s.split("\n")\<close>: the lines of a string, the inverse of joining with a line feed.\<close>

fun split_lines :: "pystr \<Rightarrow> pystr list" where
  "split_lines [] = [[]]"
| "split_lines (c # cs) =
     (if c = newline then [] # split_lines cs
      else (case split_lines cs of
              [] \<Rightarrow> [[c]]
            | l # ls \<Rightarrow> (c # l) # ls))"

section \<open>The sheet row and the message\<close>

text \<open>The dictionary \<open>read_google_sheet\<close> returns: nine cells, A2 to I2, as text.\<close>

record snapshot =
  date :: pystr
  sp500 :: pystr
  nasdaq :: pystr
  tsx :: pystr
  mags :: pystr
  btc :: pystr
  eth :: pystr
  usdcad :: pystr
  gold :: pystr

text \<open>
  \<^verbatim>\<open>
  def fmt_pct(val):
      v = str(val).strip()
      return v if "%" in v else v + "%"
  \<close>
\<close>

definition fmt_pct :: "pystr \<Rightarrow> pystr" where
  "fmt_pct val = (let v = strip val in if percent \<in> set v then v else v @ [percent])"

text \<open>The rule line: 27 times U+2500.\<close>

definition rule_line :: pystr where
  "rule_line = replicate 27 9472"

text \<open>
  The USD/CAD line of the source reads
  \<^verbatim>\<open>{d['usdcad'] if d['usdcad'].startswith('<A>') else '<B>' + d['usdcad']}\<close>
  where the text of the two literals \<open>A\<close> and \<open>B\<close> is damaged in the file: at each of
  them the remainder of the file is spliced in after the opening quote, which is what is
  left of a dollar sign and its closing quote when a text substitution reads the pair as
  "the text after the match". The shape of the expression is intact, so the two literals
  are parameters of the model, and the examples take a dollar sign for both.
\<close>

definition fmt_usdcad :: "pystr \<Rightarrow> pystr \<Rightarrow> pystr \<Rightarrow> pystr" where
  "fmt_usdcad a b v = (if startswith v a then v else b @ v)"

text \<open>
  \<^verbatim>\<open>
  def format_slack_message(d):
      lines = [
          f"*Date: {d['date']} Market*",
          "<27 times U+2500>",
          f":us: S&P 500: {fmt_pct(d['sp500'])}",
          f":us: Nasdaq: {fmt_pct(d['nasdaq'])}",
          f":flag-ca: TSX Comp: {fmt_pct(d['tsx'])}",
          f":seven: Magnificent7: {fmt_pct(d['mags'])}",
          f":bitcoin: Bitcoin: {fmt_pct(d['btc'])}",
          f":ethereum: Ethereum: {fmt_pct(d['eth'])}",
          f":chart_with_upwards_trend: USD/CAD: {<the expression above>}",
          f":gold_ingot: Gold: {fmt_pct(d['gold'])}",
      ]
      return "\n".join(lines)
  \<close>
  \<open>message_lines\<close> is the list \<open>lines\<close>.
\<close>

definition message_lines :: "pystr \<Rightarrow> pystr \<Rightarrow> snapshot \<Rightarrow> pystr list" where
  "message_lines a b d =
     [lit ''*Date: '' @ date d @ lit '' Market*'',
      rule_line,
      lit '':us: S&P 500: '' @ fmt_pct (sp500 d),
      lit '':us: Nasdaq: '' @ fmt_pct (nasdaq d),
      lit '':flag-ca: TSX Comp: '' @ fmt_pct (tsx d),
      lit '':seven: Magnificent7: '' @ fmt_pct (mags d),
      lit '':bitcoin: Bitcoin: '' @ fmt_pct (btc d),
      lit '':ethereum: Ethereum: '' @ fmt_pct (eth d),
      lit '':chart_with_upwards_trend: USD/CAD: '' @ fmt_usdcad a b (usdcad d),
      lit '':gold_ingot: Gold: '' @ fmt_pct (gold d)]"

definition format_slack_message :: "pystr \<Rightarrow> pystr \<Rightarrow> snapshot \<Rightarrow> pystr" where
  "format_slack_message a b d = join [newline] (message_lines a b d)"

section \<open>The environment of a run\<close>

text \<open>
  Everything outside the program is an oracle that says, for each call the program can
  make, whether the call returns or raises. The calls a run makes are recorded in order.
\<close>

datatype logline =
    BannerRule | BannerTitle | SheetData pystr
  | GotoAttempt nat nat | GotoFailed
  | LatestCopyFailed | Saved
  | OutputWritten | NoOutput | Done

datatype event =
    HttpGet
  | PlaywrightStart | PlaywrightStop
  | Launch | NewContext | NewPage | AddInitScript
  | Goto pystr pystr nat
  | WaitNetworkIdle nat
  | Sleep nat
  | Click pystr nat
  | QuerySelector pystr
  | ElementScreenshot pystr
  | PageScreenshot
  | CopyLatest
  | BrowserClose
  | AppendOutput pystr pystr
  | Print logline

text \<open>
  \<open>Goto url wait_until timeout\<close>, \<open>WaitNetworkIdle timeout\<close> and \<open>Click selector timeout\<close>
  carry their timeouts in milliseconds, \<open>Sleep\<close> its delay in milliseconds,
  \<open>AppendOutput path text\<close> the text appended to the file.
\<close>

datatype error =
    RequestError | HTTPError | StopIteration | RuntimeError | ValueError
  | Raised event

text \<open>The answer of the sheet export: the request raises, the status is an error, or
  the body parses (\<open>csv.reader\<close>) into rows of cells.\<close>

datatype response = FetchRaises | BadStatus | Body "pystr list list"

text \<open>The answer of \<open>page.query_selector\<close>: it raises, it returns \<open>None\<close>, or an element.\<close>

datatype lookup = LookupRaises | NoElement | Element

text \<open>What a screenshot call wrote to the dated path.\<close>

datatype shot = Cropped pystr | FullPage

record world =
  sheet :: response
  playwright_ok :: bool
  launch_ok :: bool
  context_ok :: bool
  page_ok :: bool
  script_ok :: bool
  goto_ok :: "nat \<Rightarrow> bool"
  idle_ok :: "nat \<Rightarrow> bool"
  fallback_ok :: bool
  click_ok :: "pystr \<Rightarrow> bool"
  query :: "pystr \<Rightarrow> lookup"
  element_shot_ok :: "pystr \<Rightarrow> bool"
  page_shot_ok :: bool
  copy_ok :: bool
  close_ok :: bool
  gh_output :: "pystr option"
  output_ok :: bool

text \<open>
  \<open>goto_ok w i\<close> and \<open>idle_ok w i\<close> are the outcomes of \<open>page.goto\<close> and of
  \<open>page.wait_for_load_state\<close> in attempt \<open>i\<close> of \<open>goto_with_retries\<close> (which runs once,
  on a fresh page); \<open>fallback_ok\<close> is the outcome of the caller's last \<open>page.goto\<close>.
  \<open>gh_output\<close> is \<open>os.environ.get("GITHUB_OUTPUT")\<close>.
\<close>

text \<open>The state of a run: the calls made so far, and what this run has written to the
  dated path and to the latest path.\<close>

record run =
  trace :: "event list"
  dated :: "shot option"
  latest :: "shot option"

definition start :: run where
  "start = \<lparr>trace = [], dated = None, latest = None\<rparr>"

definition emit :: "event \<Rightarrow> run \<Rightarrow> run" where
  "emit e s = s\<lparr>trace := trace s @ [e]\<rparr>"

text \<open>An awaited call: it is recorded, and returns or raises as the world says.\<close>

definition call :: "event \<Rightarrow> bool \<Rightarrow> run \<Rightarrow> (error + unit) \<times> run" where
  "call e ok s = (if ok then Inr () else Inl (Raised e), emit e s)"

text \<open>Sequencing: an exception of the first step skips the rest.\<close>

definition and_then ::
  "(error + 'a) \<times> run \<Rightarrow> ('a \<Rightarrow> run \<Rightarrow> (error + 'b) \<times> run) \<Rightarrow> (error + 'b) \<times> run" where
  "and_then m f = (case m of (Inl e, s) \<Rightarrow> (Inl e, s) | (Inr x, s) \<Rightarrow> f x s)"

section \<open>Reading the sheet\<close>

text \<open>
  \<^verbatim>\<open>
  resp = requests.get(export_url, timeout=30)
  resp.raise_for_status()
  reader = csv.reader(io.StringIO(resp.text))
  header = next(reader)  # row 1 (headers)
  row = next(reader)     # row 2 (data)
  if len(row) < 9:
      raise ValueError(...)
  return {"date": row[0], ..., "gold": row[8]}
  \<close>
\<close>

definition read_google_sheet :: "world \<Rightarrow> run \<Rightarrow> (error + snapshot) \<times> run" where
  "read_google_sheet w s =
     (let s = emit HttpGet s in
      case sheet w of
        FetchRaises \<Rightarrow> (Inl RequestError, s)
      | BadStatus \<Rightarrow> (Inl HTTPError, s)
      | Body rows \<Rightarrow>
          (case rows of
             [] \<Rightarrow> (Inl StopIteration, s)
           | header # rest \<Rightarrow>
               (case rest of
                  [] \<Rightarrow> (Inl StopIteration, s)
                | row # _ \<Rightarrow>
                    if length row < 9 then (Inl ValueError, s)
                    else (Inr \<lparr>date = row ! 0, sp500 = row ! 1, nasdaq = row ! 2,
                               tsx = row ! 3, mags = row ! 4, btc = row ! 5,
                               eth = row ! 6, usdcad = row ! 7, gold = row ! 8\<rparr>, s))))"

section \<open>The capture pipeline\<close>

definition FINVIZ_URL :: pystr where
  "FINVIZ_URL = lit ''https://finviz.com/map.ashx''"

text \<open>
  \<^verbatim>\<open>
  async def goto_with_retries(page, url, attempts=3):
      for i in range(1, attempts + 1):
          try:
              print(f"[Heatmap] goto attempt {i}/{attempts}")
              await page.goto(url, wait_until="domcontentloaded", timeout=90_000)
              await page.wait_for_load_state("networkidle", timeout=60_000)
              return True
          except Exception as e:
              if i == attempts:
                  print(f"[Heatmap][ERR] goto failed: {e}")
              await asyncio.sleep(2 + i)
      return False
  \<close>
  \<open>goto_except\<close> is the handler; \<open>goto_loop\<close> is the loop over the attempts left.
\<close>

definition goto_except :: "nat \<Rightarrow> nat \<Rightarrow> run \<Rightarrow> run" where
  "goto_except attempts i s =
     emit (Sleep (1000 * (2 + i))) (if i = attempts then emit (Print GotoFailed) s else s)"

fun goto_loop :: "world \<Rightarrow> pystr \<Rightarrow> nat \<Rightarrow> nat list \<Rightarrow> run \<Rightarrow> bool \<times> run" where
  "goto_loop w url attempts [] s = (False, s)"
| "goto_loop w url attempts (i # rest) s =
     (let s = emit (Print (GotoAttempt i attempts)) s;
          s = emit (Goto url (lit ''domcontentloaded'') 90000) s
      in if goto_ok w i then
           (let s = emit (WaitNetworkIdle 60000) s
            in if idle_ok w i then (True, s)
               else goto_loop w url attempts rest (goto_except attempts i s))
         else goto_loop w url attempts rest (goto_except attempts i s))"

definition goto_with_retries :: "world \<Rightarrow> pystr \<Rightarrow> nat \<Rightarrow> run \<Rightarrow> bool \<times> run" where
  "goto_with_retries w url attempts s = goto_loop w url attempts [1 ..< attempts + 1] s"

text \<open>Lines 103 to 124 of \<open>capture_heatmap\<close>: the browser, its context, the page and the
  init script.\<close>

definition open_page :: "world \<Rightarrow> run \<Rightarrow> (error + unit) \<times> run" where
  "open_page w s =
     and_then (call Launch (launch_ok w) s) (\<lambda>_ s.
     and_then (call NewContext (context_ok w) s) (\<lambda>_ s.
     and_then (call NewPage (page_ok w) s) (\<lambda>_ s.
     call AddInitScript (script_ok w) s)))"

text \<open>
  \<^verbatim>\<open>
  ok = await goto_with_retries(page, FINVIZ_URL, attempts=3)
  if not ok:
      await page.goto(FINVIZ_URL, wait_until="load", timeout=120_000)
  \<close>
\<close>

definition navigate :: "world \<Rightarrow> nat \<Rightarrow> run \<Rightarrow> (error + unit) \<times> run" where
  "navigate w attempts s =
     (case goto_with_retries w FINVIZ_URL attempts s of
        (ok, s) \<Rightarrow>
          if \<not> ok then call (Goto FINVIZ_URL (lit ''load'') 120000) (fallback_ok w) s
          else (Inr (), s))"

text \<open>
  \<^verbatim>\<open>
  for sel in ['button:has-text("Accept")', 'button:has-text("I Accept")',
              'button:has-text("Agree")', '[aria-label*="accept"]']:
      try:
          await page.locator(sel).first.click(timeout=1500)
          await asyncio.sleep(0.4)
          break
      except:
          pass
  \<close>
\<close>

definition banner_selectors :: "pystr list" where
  \<open>banner_selectors =
     [lit ''button:has-text("Accept")'', lit ''button:has-text("I Accept")'',
      lit ''button:has-text("Agree")'', lit ''[aria-label*="accept"]'']\<close>

fun dismiss_loop :: "world \<Rightarrow> pystr list \<Rightarrow> run \<Rightarrow> run" where
  "dismiss_loop w [] s = s"
| "dismiss_loop w (sel # rest) s =
     (let s = emit (Click sel 1500) s
      in if click_ok w sel then emit (Sleep 400) s
         else dismiss_loop w rest s)"

text \<open>
  \<^verbatim>\<open>
  saved = False
  for sel in ["#map", 'div[id*="map"]', 'img[src*="map.ashx"]', "canvas"]:
      try:
          el = await page.query_selector(sel)
          if el:
              await el.screenshot(path=HEATMAP_PATH)
              saved = True
              break
      except:
          pass
  if not saved:
      await page.screenshot(path=HEATMAP_PATH, full_page=True)
  \<close>
  \<open>element_loop\<close> is the loop and returns \<open>saved\<close>; \<open>take_screenshot\<close> is the whole block.
\<close>

definition map_selectors :: "pystr list" where
  \<open>map_selectors =
     [lit ''#map'', lit ''div[id*="map"]'', lit ''img[src*="map.ashx"]'', lit ''canvas'']\<close>

fun element_loop :: "world \<Rightarrow> pystr list \<Rightarrow> run \<Rightarrow> bool \<times> run" where
  "element_loop w [] s = (False, s)"
| "element_loop w (sel # rest) s =
     (let s = emit (QuerySelector sel) s
      in case query w sel of
           LookupRaises \<Rightarrow> element_loop w rest s
         | NoElement \<Rightarrow> element_loop w rest s
         | Element \<Rightarrow>
             (let s = emit (ElementScreenshot sel) s
              in if element_shot_ok w sel then (True, s\<lparr>dated := Some (Cropped sel)\<rparr>)
                 else element_loop w rest s))"

definition take_screenshot :: "world \<Rightarrow> pystr list \<Rightarrow> run \<Rightarrow> (error + unit) \<times> run" where
  "take_screenshot w sels s =
     (case element_loop w sels s of
        (saved, s) \<Rightarrow>
          if \<not> saved then
            (let s = emit PageScreenshot s
             in if page_shot_ok w then (Inr (), s\<lparr>dated := Some FullPage\<rparr>)
                else (Inl (Raised PageScreenshot), s))
          else (Inr (), s))"

text \<open>
  \<^verbatim>\<open>
  try:
      shutil.copyfile(HEATMAP_PATH, HEATMAP_LATEST)
  except Exception as e:
      print(f"[Heatmap][WARN] latest copy failed: {e}")
  \<close>
\<close>

definition keep_latest :: "world \<Rightarrow> run \<Rightarrow> run" where
  "keep_latest w s =
     (let s = emit CopyLatest s
      in if copy_ok w then s\<lparr>latest := dated s\<rparr>
         else emit (Print LatestCopyFailed) s)"

text \<open>
  \<open>capture_heatmap\<close>: the body of the \<open>async with async_playwright()\<close> block is
  \<open>capture_session\<close>, which ends with \<open>await browser.close()\<close>; the block's exit runs
  on every way out of the body, with or without an exception.
\<close>

definition capture_session :: "world \<Rightarrow> run \<Rightarrow> (error + unit) \<times> run" where
  "capture_session w s =
     and_then (open_page w s) (\<lambda>_ s.
     and_then (navigate w 3 s) (\<lambda>_ s.
     and_then (take_screenshot w map_selectors (dismiss_loop w banner_selectors s)) (\<lambda>_ s.
     call BrowserClose (close_ok w) (emit (Print Saved) (keep_latest w s)))))"

definition capture_heatmap :: "world \<Rightarrow> run \<Rightarrow> (error + unit) \<times> run" where
  "capture_heatmap w s =
     and_then (call PlaywrightStart (playwright_ok w) s) (\<lambda>_ s.
       case capture_session w s of (r, s) \<Rightarrow> (r, emit PlaywrightStop s))"

section \<open>The orchestrator\<close>

text \<open>
  \<^verbatim>\<open>
  async def main():
      print("=" * 50); print(f"Daily Market Bot ..."); print("=" * 50)
      sheet_data = read_google_sheet()
      message_text = format_slack_message(sheet_data)
      print(f"\n[Sheet] Data:\n{message_text}\n")
      await capture_heatmap()
      gh_output = os.environ.get("GITHUB_OUTPUT")
      if gh_output:
          with open(gh_output, "a") as f:
              f.write("market_text<<EOF\n")
              f.write(message_text + "\n")
              f.write("EOF\n")
          print("[Output] Written to GITHUB_OUTPUT")
      else:
          print("[Output] No GITHUB_OUTPUT (local run)")
      print("\n[DONE] ...")
  \<close>
  A \<open>StopIteration\<close> that leaves a coroutine is turned into a \<open>RuntimeError\<close>.
\<close>

definition write_output :: "world \<Rightarrow> pystr \<Rightarrow> run \<Rightarrow> (error + unit) \<times> run" where
  "write_output w message_text s =
     (case gh_output w of
        None \<Rightarrow> (Inr (), emit (Print NoOutput) s)
      | Some path \<Rightarrow>
          if path = [] then (Inr (), emit (Print NoOutput) s)
          else
            and_then
              (call (AppendOutput path
                 (lit ''market_text<<EOF'' @ [newline] @ message_text @ [newline] @
                  lit ''EOF'' @ [newline])) (output_ok w) s)
              (\<lambda>_ s. (Inr (), emit (Print OutputWritten) s)))"

definition main :: "pystr \<Rightarrow> pystr \<Rightarrow> world \<Rightarrow> run \<Rightarrow> (error + unit) \<times> run" where
  "main a b w s =
     (let s = emit (Print BannerRule) s;
          s = emit (Print BannerTitle) s;
          s = emit (Print BannerRule) s
      in case read_google_sheet w s of
           (Inl e, s) \<Rightarrow> (Inl (if e = StopIteration then RuntimeError else e), s)
         | (Inr sheet_data, s) \<Rightarrow>
             (let message_text = format_slack_message a b sheet_data;
                  s = emit (Print (SheetData message_text)) s
              in and_then (capture_heatmap w s) (\<lambda>_ s.
                 and_then (write_output w message_text s) (\<lambda>_ s.
                 (Inr (), emit (Print Done) s)))))"

text \<open>The row of the end-to-end scenario.\<close>

definition example_row :: snapshot where
  "example_row = \<lparr>date = lit ''2024-06-01'', sp500 = lit ''+0.5'', nasdaq = lit ''+1.2'',
     tsx = lit ''-0.3'', mags = lit ''+2.0'', btc = lit ''+3.1'', eth = lit ''-1.0'',
     usdcad = lit ''1.36'', gold = lit ''+0.8''\<rparr>"

text \<open>The navigation calls of a run: its \<open>page.goto\<close> calls.\<close>

fun is_goto :: "event \<Rightarrow> bool" where
  "is_goto (Goto url wait_until timeout) = True"
| "is_goto e = False"

definition navigations :: "run \<Rightarrow> nat" where
  "navigations s = length (filter is_goto (trace s))"

text \<open>A world in which the sheet holds the example row, every call returns, no banner
  is there to click and no selector finds an element.\<close>

definition calm :: world where
  "calm = \<lparr>sheet = Body [[], [lit ''2024-06-01'', lit ''+0.5'', lit ''+1.2'', lit ''-0.3'',
                              lit ''+2.0'', lit ''+3.1'', lit ''-1.0'', lit ''1.36'', lit ''+0.8'']],
     playwright_ok = True, launch_ok = True, context_ok = True, page_ok = True,
     script_ok = True, goto_ok = (\<lambda>i. True), idle_ok = (\<lambda>i. True), fallback_ok = True,
     click_ok = (\<lambda>sel. False), query = (\<lambda>sel. NoElement), element_shot_ok = (\<lambda>sel. True),
     page_shot_ok = True, copy_ok = True, close_ok = True, gh_output = None,
     output_ok = True\<rparr>"

section \<open>Properties of the message\<close>

lemma percent_not_space: "\<not> is_space percent"
  by (simp add: is_space_def percent_def)

lemma strip_hd: "strip v \<noteq> [] \<Longrightarrow> \<not> is_space (hd (strip v))"
proof -
  assume ne: "strip v \<noteq> []"
  define w where "w = dropWhile is_space v"
  define u where "u = dropWhile is_space (rev w)"
  have s: "strip v = rev u" by (simp add: strip_def u_def w_def)
  from ne s have u: "u \<noteq> []" by simp
  then have w: "w \<noteq> []" by (auto simp: u_def)
  from u obtain x where "x \<in> set (rev w)" "\<not> is_space x"
    unfolding u_def by (auto simp: dropWhile_eq_Nil_conv)
  then have "last u = last (rev w)"
    unfolding u_def by (rule dropWhile_last)
  also have "\<dots> = hd w" using w by (simp add: last_rev)
  finally have "hd (rev u) = hd w" using u by (simp add: hd_rev)
  moreover have "\<not> is_space (hd w)" using w unfolding w_def by (rule hd_dropWhile)
  ultimately show ?thesis by (simp add: s)
qed

lemma strip_last: "strip v \<noteq> [] \<Longrightarrow> \<not> is_space (last (strip v))"
proof -
  assume ne: "strip v \<noteq> []"
  define u where "u = dropWhile is_space (rev (dropWhile is_space v))"
  have s: "strip v = rev u" by (simp add: strip_def u_def)
  from ne s have u: "u \<noteq> []" by simp
  then have "\<not> is_space (hd u)" unfolding u_def by (rule hd_dropWhile)
  then show ?thesis using u by (simp add: s last_rev)
qed

lemma strip_fixed:
  assumes "s \<noteq> [] \<Longrightarrow> \<not> is_space (hd s)" and "s \<noteq> [] \<Longrightarrow> \<not> is_space (last s)"
  shows "strip s = s"
proof (cases "s = []")
  case True
  then show ?thesis by (simp add: strip_def)
next
  case False
  with assms have h: "\<not> is_space (hd s)" and l: "\<not> is_space (last s)" by simp_all
  from False h have 1: "dropWhile is_space s = s" by (cases s) simp_all
  from False l have 2: "dropWhile is_space (rev s) = rev s"
    by (cases "rev s") (simp_all add: last_rev hd_rev[symmetric])
  show ?thesis by (simp add: strip_def 1 2)
qed

lemma strip_strip: "strip (strip v) = strip v"
  by (rule strip_fixed) (simp_all add: strip_hd strip_last)

lemma strip_snoc_percent: "strip (strip v @ [percent]) = strip v @ [percent]"
proof (rule strip_fixed)
  show "\<not> is_space (hd (strip v @ [percent]))"
    by (cases "strip v = []") (simp_all add: percent_not_space strip_hd)
  show "\<not> is_space (last (strip v @ [percent]))"
    by (simp add: percent_not_space)
qed

text \<open>
  Claim C10. For every string \<open>v\<close>, \<open>fmt_pct v\<close> contains a percent sign, and
  \<open>fmt_pct (fmt_pct v) = fmt_pct v\<close>: formatting a formatted value again appends no
  second percent sign.
\<close>

theorem fmt_pct_idempotent:
  "percent \<in> set (fmt_pct v) \<and> fmt_pct (fmt_pct v) = fmt_pct v"
  by (simp add: fmt_pct_def Let_def strip_strip strip_snoc_percent)

lemma split_lines_no_newline: "newline \<notin> set l \<Longrightarrow> split_lines l = [l]"
  by (induction l) auto

lemma split_lines_append:
  "newline \<notin> set l \<Longrightarrow> split_lines (l @ newline # r) = l # split_lines r"
  by (induction l) auto

lemma split_lines_join:
  "ls \<noteq> [] \<Longrightarrow> \<forall>l \<in> set ls. newline \<notin> set l \<Longrightarrow> split_lines (join [newline] ls) = ls"
  by (induction "[newline]" ls rule: join.induct) (simp_all add: split_lines_no_newline split_lines_append)

lemma newline_strip: "newline \<notin> set v \<Longrightarrow> newline \<notin> set (strip v)"
  by (auto simp: strip_def dest!: set_dropWhileD)

lemma newline_fmt_pct: "newline \<notin> set v \<Longrightarrow> newline \<notin> set (fmt_pct v)"
  by (auto simp: fmt_pct_def Let_def percent_def newline_def dest: newline_strip[unfolded newline_def])



lemma fmt_pct_plain:
  "percent \<notin> set v \<Longrightarrow> (v \<noteq> [] \<Longrightarrow> \<not> is_space (hd v)) \<Longrightarrow> (v \<noteq> [] \<Longrightarrow> \<not> is_space (last v)) \<Longrightarrow> fmt_pct v = v @ [percent]"
  by (simp add: fmt_pct_def strip_fixed)

text \<open>
  The message for the row of the end-to-end scenario, whatever the two literals of the
  USD/CAD expression are: the date line, the rule line and eight metric lines in the fixed
  order, a percent sign appended to each value but the USD/CAD one. Whether the USD/CAD
  value is passed through unmodified (claim C7) depends on the two literals, whose text is
  not in the source: it is kept as it is when it starts with the literal \<open>a\<close>, and has the
  literal \<open>b\<close> put in front of it otherwise.
\<close>

lemma message_of_example_row:
  "format_slack_message a b example_row =
     lit ''*Date: 2024-06-01 Market*'' @ [newline] @
     rule_line @ [newline] @
     lit '':us: S&P 500: +0.5%'' @ [newline] @
     lit '':us: Nasdaq: +1.2%'' @ [newline] @
     lit '':flag-ca: TSX Comp: -0.3%'' @ [newline] @
     lit '':seven: Magnificent7: +2.0%'' @ [newline] @
     lit '':bitcoin: Bitcoin: +3.1%'' @ [newline] @
     lit '':ethereum: Ethereum: -1.0%'' @ [newline] @
     lit '':chart_with_upwards_trend: USD/CAD: '' @
       (if startswith (lit ''1.36'') a then lit ''1.36'' else b @ lit ''1.36'') @ [newline] @
     lit '':gold_ingot: Gold: +0.8%''"
  by (simp add: format_slack_message_def message_lines_def example_row_def fmt_usdcad_def
      fmt_pct_plain lit_def percent_def is_space_def)


lemma newline_labels:
  "newline \<notin> set (lit ''*Date: '')" "newline \<notin> set (lit '' Market*'')"
  "newline \<notin> set rule_line"
  "newline \<notin> set (lit '':us: S&P 500: '')" "newline \<notin> set (lit '':us: Nasdaq: '')"
  "newline \<notin> set (lit '':flag-ca: TSX Comp: '')" "newline \<notin> set (lit '':seven: Magnificent7: '')"
  "newline \<notin> set (lit '':bitcoin: Bitcoin: '')" "newline \<notin> set (lit '':ethereum: Ethereum: '')"
  "newline \<notin> set (lit '':chart_with_upwards_trend: USD/CAD: '')"
  "newline \<notin> set (lit '':gold_ingot: Gold: '')"
  by (simp_all add: lit_def newline_def rule_line_def)

lemma newline_fmt_usdcad:
  "newline \<notin> set b \<Longrightarrow> newline \<notin> set v \<Longrightarrow> newline \<notin> set (fmt_usdcad a b v)"
  by (simp add: fmt_usdcad_def)

lemma lines_of_message:
  assumes "\<forall>v \<in> set [date d, sp500 d, nasdaq d, tsx d, mags d, btc d, eth d, usdcad d, gold d, b].
             newline \<notin> set v"
  shows "split_lines (format_slack_message a b d) = message_lines a b d"
  unfolding format_slack_message_def
proof (rule split_lines_join)
  show "message_lines a b d \<noteq> []" by (simp add: message_lines_def)
  show "\<forall>l\<in>set (message_lines a b d). newline \<notin> set l"
    using assms by (simp add: message_lines_def newline_labels newline_fmt_pct newline_fmt_usdcad)
qed

lemma example_row_one_line:
  "\<forall>v \<in> set [date example_row, sp500 example_row, nasdaq example_row, tsx example_row,
      mags example_row, btc example_row, eth example_row, usdcad example_row,
      gold example_row, lit ''$'']. newline \<notin> set v"
  by (simp add: example_row_def lit_def newline_def)

lemma fmt_pct_nonempty: "fmt_pct v \<noteq> []"
  by (auto simp: fmt_pct_def Let_def)

lemma fmt_pct_last:
  "last (l @ fmt_pct v) = percent \<longleftrightarrow> (percent \<in> set (strip v) \<longrightarrow> last (strip v) = percent)"
  by (cases "strip v = []") (auto simp: fmt_pct_def Let_def)

text \<open>
  Claim C8, as amended. For every record whose nine cells hold no line feed (and with no
  line feed in the literal \<open>b\<close>), the lines of the message are the date line, the rule
  line and exactly one line per metric in the fixed order, each starting with its fixed
  label. Every line \<open>l @ fmt_pct v\<close> of a percent-style field contains a percent sign; it
  ends in one exactly when the stripped cell has no percent sign or ends in one itself.
\<close>

theorem format_slack_message_lines:
  assumes "\<forall>v \<in> set [date d, sp500 d, nasdaq d, tsx d, mags d, btc d, eth d, usdcad d, gold d, b].
             newline \<notin> set v"
  shows "split_lines (format_slack_message a b d) =
           [lit ''*Date: '' @ date d @ lit '' Market*'',
            rule_line,
            lit '':us: S&P 500: '' @ fmt_pct (sp500 d),
            lit '':us: Nasdaq: '' @ fmt_pct (nasdaq d),
            lit '':flag-ca: TSX Comp: '' @ fmt_pct (tsx d),
            lit '':seven: Magnificent7: '' @ fmt_pct (mags d),
            lit '':bitcoin: Bitcoin: '' @ fmt_pct (btc d),
            lit '':ethereum: Ethereum: '' @ fmt_pct (eth d),
            lit '':chart_with_upwards_trend: USD/CAD: '' @
              (if startswith (usdcad d) a then usdcad d else b @ usdcad d),
            lit '':gold_ingot: Gold: '' @ fmt_pct (gold d)] \<and>
         percent \<in> set (l @ fmt_pct v) \<and>
         (last (l @ fmt_pct v) = percent \<longleftrightarrow>
            (percent \<in> set (strip v) \<longrightarrow> last (strip v) = percent))"
proof (intro conjI)
  show "percent \<in> set (l @ fmt_pct v)"
    by (simp add: fmt_pct_def Let_def)
  show "last (l @ fmt_pct v) = percent \<longleftrightarrow>
          (percent \<in> set (strip v) \<longrightarrow> last (strip v) = percent)"
    by (rule fmt_pct_last)
qed (simp add: lines_of_message [OF assms] message_lines_def fmt_usdcad_def)


text \<open>
  The example row satisfies the hypothesis of C8.
\<close>

theorem format_slack_message_lines_witness:
  "newline \<notin> set (date example_row) \<and> newline \<notin> set (sp500 example_row) \<and>
   newline \<notin> set (nasdaq example_row) \<and> newline \<notin> set (tsx example_row) \<and>
   newline \<notin> set (mags example_row) \<and> newline \<notin> set (btc example_row) \<and>
   newline \<notin> set (eth example_row) \<and> newline \<notin> set (usdcad example_row) \<and>
   newline \<notin> set (gold example_row) \<and> newline \<notin> set (lit ''$'') \<and>
   split_lines (format_slack_message (lit ''$'') (lit ''$'') example_row) =
     [lit ''*Date: 2024-06-01 Market*'', rule_line,
      lit '':us: S&P 500: +0.5%'', lit '':us: Nasdaq: +1.2%'',
      lit '':flag-ca: TSX Comp: -0.3%'', lit '':seven: Magnificent7: +2.0%'',
      lit '':bitcoin: Bitcoin: +3.1%'', lit '':ethereum: Ethereum: -1.0%'',
      lit '':chart_with_upwards_trend: USD/CAD: $1.36'', lit '':gold_ingot: Gold: +0.8%''] \<and>
   last (lit '':us: S&P 500: '' @ fmt_pct (lit ''+0.5'')) = percent"
proof -
  note h = example_row_one_line
  have plain: "fmt_pct (lit ''+0.5'') = lit ''+0.5%''" "fmt_pct (lit ''+1.2'') = lit ''+1.2%''"
    "fmt_pct (lit ''-0.3'') = lit ''-0.3%''" "fmt_pct (lit ''+2.0'') = lit ''+2.0%''"
    "fmt_pct (lit ''+3.1'') = lit ''+3.1%''" "fmt_pct (lit ''-1.0'') = lit ''-1.0%''"
    "fmt_pct (lit ''+0.8'') = lit ''+0.8%''"
    by (simp_all add: fmt_pct_plain lit_def percent_def is_space_def)
  from format_slack_message_lines [OF h, of "lit ''$''" "lit '':us: S&P 500: ''" "lit ''+0.5''"]
  have "split_lines (format_slack_message (lit ''$'') (lit ''$'') example_row) =
     [lit ''*Date: '' @ lit ''2024-06-01'' @ lit '' Market*'', rule_line,
      lit '':us: S&P 500: '' @ lit ''+0.5%'', lit '':us: Nasdaq: '' @ lit ''+1.2%'',
      lit '':flag-ca: TSX Comp: '' @ lit ''-0.3%'', lit '':seven: Magnificent7: '' @ lit ''+2.0%'',
      lit '':bitcoin: Bitcoin: '' @ lit ''+3.1%'', lit '':ethereum: Ethereum: '' @ lit ''-1.0%'',
      lit '':chart_with_upwards_trend: USD/CAD: '' @
        (if startswith (lit ''1.36'') (lit ''$'') then lit ''1.36'' else lit ''$'' @ lit ''1.36''),
      lit '':gold_ingot: Gold: '' @ lit ''+0.8%'']"
    by (simp add: example_row_def plain)
  moreover have "last (lit '':us: S&P 500: '' @ fmt_pct (lit ''+0.5'')) = percent"
    unfolding plain by (simp add: lit_def percent_def)
  ultimately show ?thesis
    using h by (simp add: startswith_def lit_def)
qed

lemma spx_one_line:
  "\<forall>v \<in> set [date (example_row\<lparr>sp500 := lit ''1%x''\<rparr>), sp500 (example_row\<lparr>sp500 := lit ''1%x''\<rparr>),
      nasdaq (example_row\<lparr>sp500 := lit ''1%x''\<rparr>), tsx (example_row\<lparr>sp500 := lit ''1%x''\<rparr>),
      mags (example_row\<lparr>sp500 := lit ''1%x''\<rparr>), btc (example_row\<lparr>sp500 := lit ''1%x''\<rparr>),
      eth (example_row\<lparr>sp500 := lit ''1%x''\<rparr>), usdcad (example_row\<lparr>sp500 := lit ''1%x''\<rparr>),
      gold (example_row\<lparr>sp500 := lit ''1%x''\<rparr>), lit ''$'']. newline \<notin> set v"
  by (simp add: example_row_def lit_def newline_def)

lemma split_lines_join_last:
  "\<forall>l \<in> set ls. newline \<notin> set l \<Longrightarrow>
     split_lines (join [newline] (ls @ [x])) = ls @ split_lines x"
proof (induction ls)
  case Nil
  show ?case by simp
next
  case (Cons l ls)
  then have "join [newline] ((l # ls) @ [x]) = l @ newline # join [newline] (ls @ [x])"
    by (cases ls) simp_all
  with Cons show ?case by (simp add: split_lines_append)
qed

lemma broken_gold:
  "length (split_lines (format_slack_message (lit ''$'') (lit ''$'')
      (example_row\<lparr>gold := lit ''1'' @ [newline] @ lit ''2''\<rparr>))) = 11"
proof -
  have g: "fmt_pct (lit ''1'' @ [newline] @ lit ''2'') = lit ''1'' @ [newline] @ lit ''2%''"
    by (simp add: fmt_pct_def strip_def lit_def percent_def is_space_def newline_def)
  have "message_lines (lit ''$'') (lit ''$'') (example_row\<lparr>gold := lit ''1'' @ [newline] @ lit ''2''\<rparr>)
      = butlast (message_lines (lit ''$'') (lit ''$'') example_row) @
          [lit '':gold_ingot: Gold: 1'' @ [newline] @ lit ''2%'']"
    by (simp add: message_lines_def example_row_def g)
       (simp add: lit_def fmt_pct_def strip_def percent_def is_space_def newline_def)
  moreover have "\<forall>l \<in> set (butlast (message_lines (lit ''$'') (lit ''$'') example_row)).
      newline \<notin> set l"
    using example_row_one_line
    by (simp add: message_lines_def newline_labels newline_fmt_pct newline_fmt_usdcad)
  ultimately show ?thesis
    by (simp add: format_slack_message_def split_lines_join_last)
       (simp add: message_lines_def lit_def newline_def)
qed

text \<open>
  Claim C8 as stated says every percent-style line ends in a percent sign and the message
  has exactly one line per metric, for arbitrary cell text. The cell \<open>1%x\<close> already holds
  a percent sign, so nothing is appended, and its line ends in \<open>x\<close>. A cell with a line
  feed inside gives the message an eleventh line.
\<close>

theorem format_slack_message_lines_counterexample:
  "split_lines (format_slack_message (lit ''$'') (lit ''$'')
      (example_row\<lparr>sp500 := lit ''1%x''\<rparr>)) ! 2 = lit '':us: S&P 500: 1%x'' \<and>
   last (lit '':us: S&P 500: 1%x'') \<noteq> percent \<and>
   length (split_lines (format_slack_message (lit ''$'') (lit ''$'')
      (example_row\<lparr>gold := lit ''1'' @ [newline] @ lit ''2''\<rparr>))) = 11"
proof -
  have "split_lines (format_slack_message (lit ''$'') (lit ''$'') (example_row\<lparr>sp500 := lit ''1%x''\<rparr>))
          = message_lines (lit ''$'') (lit ''$'') (example_row\<lparr>sp500 := lit ''1%x''\<rparr>)"
    by (rule lines_of_message [OF spx_one_line])
  moreover have "fmt_pct (lit ''1%x'') = lit ''1%x''"
    by (simp add: fmt_pct_def strip_def lit_def percent_def is_space_def)
  ultimately have "split_lines (format_slack_message (lit ''$'') (lit ''$'')
      (example_row\<lparr>sp500 := lit ''1%x''\<rparr>)) ! 2 = lit '':us: S&P 500: 1%x'' \<and>
   last (lit '':us: S&P 500: 1%x'') \<noteq> percent"
    by (simp add: message_lines_def example_row_def lit_def percent_def)
  with broken_gold show ?thesis by blast
qed

section \<open>Properties of the capture pipeline\<close>

lemma emit_simps [simp]:
  "trace (emit e s) = trace s @ [e]" "dated (emit e s) = dated s" "latest (emit e s) = latest s"
  by (simp_all add: emit_def)

lemma and_then_simps [simp]:
  "and_then (Inl e, s) f = (Inl e, s)" "and_then (Inr x, s) f = f x s"
  by (simp_all add: and_then_def)

lemma navigations_emit [simp]:
  "navigations (emit e s) = navigations s + (if is_goto e then 1 else 0)"
  by (simp add: navigations_def)

lemma navigations_goto_except [simp]: "navigations (goto_except n i s) = navigations s"
  by (simp add: goto_except_def)

lemma goto_loop_all_fail:
  "\<forall>i \<in> set is. \<not> (goto_ok w i \<and> idle_ok w i) \<Longrightarrow>
     fst (goto_loop w u n is s) = False \<and>
     navigations (snd (goto_loop w u n is s)) = navigations s + length is"
  by (induction "is" arbitrary: s) (auto simp: Let_def)

lemma goto_loop_skip:
  "\<forall>i \<in> set pre. \<not> (goto_ok w i \<and> idle_ok w i) \<Longrightarrow>
     goto_loop w u n (pre @ post) s = goto_loop w u n post (snd (goto_loop w u n pre s))"
  by (induction pre arbitrary: s) (auto simp: Let_def)

lemma goto_loop_success:
  "goto_ok w k \<Longrightarrow> idle_ok w k \<Longrightarrow>
     fst (goto_loop w u n (k # post) s) = True \<and>
     navigations (snd (goto_loop w u n (k # post) s)) = navigations s + 1"
  by (simp add: Let_def)

lemma goto_loop_first_success:
  assumes "\<forall>i \<in> set pre. \<not> (goto_ok w i \<and> idle_ok w i)" "goto_ok w k" "idle_ok w k"
  shows "fst (goto_loop w u n (pre @ k # post) s) = True \<and>
         navigations (snd (goto_loop w u n (pre @ k # post) s)) = navigations s + length pre + 1"
  using goto_loop_all_fail [OF assms(1), of u n s] goto_loop_success [OF assms(2,3)]
  by (simp add: goto_loop_skip [OF assms(1)])

lemma attempts_split:
  "1 \<le> k \<Longrightarrow> k \<le> n \<Longrightarrow> [1 ..< n + 1] = [1 ..< k] @ k # [k + 1 ..< n + 1]"
proof -
  assume k: "1 \<le> k" "k \<le> n"
  then have "[1 ..< n + 1] = [1 ..< k + (n + 1 - k)]" by simp
  also have "\<dots> = [1 ..< k] @ [k ..< k + (n + 1 - k)]"
    using k(1) by (rule upt_add_eq_append)
  also have "[k ..< k + (n + 1 - k)] = k # [k + 1 ..< n + 1]"
    using k by (simp add: upt_conv_Cons)
  finally show ?thesis .
qed

lemma goto_loop_iff:
  "fst (goto_loop w u n is s) \<longleftrightarrow> (\<exists>i \<in> set is. goto_ok w i \<and> idle_ok w i)"
  by (induction "is" arbitrary: s) (auto simp: Let_def)


lemma goto_loop_keeps:
  "e = BrowserClose \<or> e = PageScreenshot \<Longrightarrow>
     (e \<in> set (trace (snd (goto_loop w u n is s)))) = (e \<in> set (trace s))"
  by (induction "is" arbitrary: s) (auto simp: Let_def goto_except_def)

lemma dismiss_loop_keeps:
  "e = BrowserClose \<or> e = PageScreenshot \<Longrightarrow>
     (e \<in> set (trace (dismiss_loop w sels s))) = (e \<in> set (trace s))"
  by (induction sels arbitrary: s) (auto simp: Let_def)

lemma element_loop_keeps:
  "e = BrowserClose \<or> e = PageScreenshot \<Longrightarrow>
     (e \<in> set (trace (snd (element_loop w sels s)))) = (e \<in> set (trace s))"
  by (induction sels arbitrary: s) (auto simp: Let_def split: lookup.splits)

lemma element_loop_no_match:
  "\<forall>sel \<in> set sels. query w sel \<noteq> Element \<Longrightarrow>
     element_loop w sels s = (False, s\<lparr>trace := trace s @ map QuerySelector sels\<rparr>)"
  by (induction sels arbitrary: s) (auto simp: Let_def emit_def split: lookup.splits)

lemma element_loop_skip:
  "\<forall>sel \<in> set pre. query w sel \<noteq> Element \<Longrightarrow>
     element_loop w (pre @ post) s
       = element_loop w post (s\<lparr>trace := trace s @ map QuerySelector pre\<rparr>)"
  by (induction pre arbitrary: s) (auto simp: Let_def emit_def split: lookup.splits)

lemma element_loop_hit:
  "query w sel = Element \<Longrightarrow> element_shot_ok w sel \<Longrightarrow>
     element_loop w (sel # post) s
       = (True, s\<lparr>trace := trace s @ [QuerySelector sel, ElementScreenshot sel],
                   dated := Some (Cropped sel)\<rparr>)"
  by (simp add: Let_def emit_def)

lemma element_loop_nth:
  assumes "n < length sels" "query w (sels ! n) = Element" "element_shot_ok w (sels ! n)"
    and "\<forall>j < n. query w (sels ! j) \<noteq> Element"
  shows "element_loop w sels s
           = (True, s\<lparr>trace := trace s @ map QuerySelector (take (Suc n) sels) @
                                  [ElementScreenshot (sels ! n)],
                       dated := Some (Cropped (sels ! n))\<rparr>)"
proof -
  have sels: "sels = take n sels @ (sels ! n) # drop (Suc n) sels"
    using assms(1) by (simp add: id_take_nth_drop)
  have pre: "\<forall>sel \<in> set (take n sels). query w sel \<noteq> Element"
    using assms(1,4) by (auto simp: in_set_conv_nth)
  have "element_loop w sels s = element_loop w (take n sels @ (sels ! n) # drop (Suc n) sels) s"
    using sels by simp
  also have "\<dots> = element_loop w ((sels ! n) # drop (Suc n) sels)
                      (s\<lparr>trace := trace s @ map QuerySelector (take n sels)\<rparr>)"
    by (rule element_loop_skip [OF pre])
  also have "\<dots> = (True, s\<lparr>trace := trace s @ map QuerySelector (take n sels)\<rparr>
                       \<lparr>trace := trace (s\<lparr>trace := trace s @ map QuerySelector (take n sels)\<rparr>) @
                                  [QuerySelector (sels ! n), ElementScreenshot (sels ! n)],
                        dated := Some (Cropped (sels ! n))\<rparr>)"
    by (rule element_loop_hit [OF assms(2,3)])
  finally show ?thesis
    using assms(1) by (simp add: take_Suc_conv_app_nth)
qed


lemma goto_except_trace:
  "trace (goto_except n i s) = trace s @ (if i = n then [Print GotoFailed] else []) @ [Sleep (1000 * (2 + i))]"
  by (simp add: goto_except_def)

lemma goto_loop_trace:
  "trace (snd (goto_loop w u n is s)) =
     trace s @
     concat (map (\<lambda>i. [Print (GotoAttempt i n), Goto u (lit ''domcontentloaded'') 90000] @
                       (if goto_ok w i then [WaitNetworkIdle 60000] else []) @
                       (if i = n then [Print GotoFailed] else []) @
                       [Sleep (1000 * (2 + i))])
               (takeWhile (\<lambda>i. \<not> (goto_ok w i \<and> idle_ok w i)) is)) @
     (case find (\<lambda>i. goto_ok w i \<and> idle_ok w i) is of
        None \<Rightarrow> []
      | Some k \<Rightarrow> [Print (GotoAttempt k n), Goto u (lit ''domcontentloaded'') 90000,
                   WaitNetworkIdle 60000])"
  by (induction "is" arbitrary: s) (simp_all add: Let_def goto_except_trace)

text \<open>
  Claim C2, as amended. A time-out of the network-quiet wait is caught, so it is not fatal,
  but it is caught by the handler of the navigation: the attempt counts as failed, and the
  loop backs off and goes on to the next attempt. \<open>goto_with_retries\<close> returns \<open>True\<close>
  exactly when in some attempt both \<open>page.goto\<close> and the wait return. Its calls are, for
  every attempt before the first in which both return: the log line, \<open>page.goto\<close>, the
  wait if \<open>page.goto\<close> returned, the error line if the attempt is the last, and the
  back-off of \<open>2 + i\<close> seconds; then, if there is such an attempt, its log line,
  \<open>page.goto\<close> and the wait. When the wait times out in every attempt, all \<open>n\<close>
  navigation calls are made.
\<close>

theorem goto_with_retries_idle_timeout:
  "(fst (goto_with_retries w url n s) \<longleftrightarrow> (\<exists>i. 1 \<le> i \<and> i \<le> n \<and> goto_ok w i \<and> idle_ok w i)) \<and>
   trace (snd (goto_with_retries w url n s)) =
     trace s @
     concat (map (\<lambda>i. [Print (GotoAttempt i n), Goto url (lit ''domcontentloaded'') 90000] @
                       (if goto_ok w i then [WaitNetworkIdle 60000] else []) @
                       (if i = n then [Print GotoFailed] else []) @
                       [Sleep (1000 * (2 + i))])
               (takeWhile (\<lambda>i. \<not> (goto_ok w i \<and> idle_ok w i)) [1 ..< n + 1])) @
     (case find (\<lambda>i. goto_ok w i \<and> idle_ok w i) [1 ..< n + 1] of
        None \<Rightarrow> []
      | Some k \<Rightarrow> [Print (GotoAttempt k n), Goto url (lit ''domcontentloaded'') 90000,
                   WaitNetworkIdle 60000]) \<and>
   ((\<forall>i. 1 \<le> i \<and> i \<le> n \<longrightarrow> \<not> idle_ok w i) \<longrightarrow>
      navigations (snd (goto_with_retries w url n s)) = navigations s + n)"
proof (intro conjI impI)
  show "fst (goto_with_retries w url n s) \<longleftrightarrow> (\<exists>i. 1 \<le> i \<and> i \<le> n \<and> goto_ok w i \<and> idle_ok w i)"
    by (auto simp: goto_with_retries_def goto_loop_iff)
next
  assume "\<forall>i. 1 \<le> i \<and> i \<le> n \<longrightarrow> \<not> idle_ok w i"
  then have "\<forall>i \<in> set [1 ..< n + 1]. \<not> (goto_ok w i \<and> idle_ok w i)" by auto
  from goto_loop_all_fail [OF this, of url n s]
  show "navigations (snd (goto_with_retries w url n s)) = navigations s + n"
    by (simp add: goto_with_retries_def)
qed (simp only: goto_with_retries_def goto_loop_trace)

text \<open>
  Claim C3, as amended. If \<open>page.goto\<close> raises in attempts \<open>1\<close> to \<open>k - 1\<close> and returns in
  attempt \<open>k \<le> n\<close>, and the network-quiet wait of attempt \<open>k\<close> returns, then
  \<open>goto_with_retries\<close> returns \<open>True\<close> after exactly \<open>k\<close> navigation calls. If \<open>page.goto\<close>
  raises in every attempt, it returns \<open>False\<close> after exactly \<open>n\<close> navigation calls, and the
  caller then makes exactly one more call of \<open>page.goto\<close>, with \<open>wait_until="load"\<close> and
  a time-out of 120 seconds.
\<close>

theorem goto_with_retries_calls:
  "(1 \<le> k \<and> k \<le> n \<and> (\<forall>i. 1 \<le> i \<and> i < k \<longrightarrow> \<not> goto_ok w i) \<and> goto_ok w k \<and> idle_ok w k \<longrightarrow>
      fst (goto_with_retries w url n s) \<and>
      navigations (snd (goto_with_retries w url n s)) = navigations s + k) \<and>
   ((\<forall>i. 1 \<le> i \<and> i \<le> n \<longrightarrow> \<not> goto_ok w i) \<longrightarrow>
      \<not> fst (goto_with_retries w FINVIZ_URL n s) \<and>
      navigations (snd (goto_with_retries w FINVIZ_URL n s)) = navigations s + n \<and>
      trace (snd (navigate w n s)) =
        trace (snd (goto_with_retries w FINVIZ_URL n s)) @ [Goto FINVIZ_URL (lit ''load'') 120000])"
proof (intro conjI impI)
  assume h: "1 \<le> k \<and> k \<le> n \<and> (\<forall>i. 1 \<le> i \<and> i < k \<longrightarrow> \<not> goto_ok w i) \<and> goto_ok w k \<and> idle_ok w k"
  then have pre: "\<forall>i \<in> set [1 ..< k]. \<not> (goto_ok w i \<and> idle_ok w i)" by simp
  from h have split: "[1 ..< n + 1] = [1 ..< k] @ k # [k + 1 ..< n + 1]"
    using attempts_split [of k n] by blast
  from h have ok: "goto_ok w k" "idle_ok w k" by simp_all
  from h have len: "length [1 ..< k] + 1 = k" by simp
  note fs = goto_loop_first_success [OF pre ok, of url n "[k + 1 ..< n + 1]" s]
  show "fst (goto_with_retries w url n s)"
    unfolding goto_with_retries_def split using fs by simp
  show "navigations (snd (goto_with_retries w url n s)) = navigations s + k"
    unfolding goto_with_retries_def split using fs len by simp
next
  assume h: "\<forall>i. 1 \<le> i \<and> i \<le> n \<longrightarrow> \<not> goto_ok w i"
  then have "\<forall>i \<in> set [1 ..< n + 1]. \<not> (goto_ok w i \<and> idle_ok w i)" by auto
  note af = goto_loop_all_fail [OF this, of FINVIZ_URL n s]
  show f: "\<not> fst (goto_with_retries w FINVIZ_URL n s)"
    using af by (simp add: goto_with_retries_def)
  show "navigations (snd (goto_with_retries w FINVIZ_URL n s)) = navigations s + n"
    using af by (simp add: goto_with_retries_def)
  show "trace (snd (navigate w n s)) =
        trace (snd (goto_with_retries w FINVIZ_URL n s)) @ [Goto FINVIZ_URL (lit ''load'') 120000]"
    using f by (simp add: navigate_def call_def split_beta)
qed

lemma upt_attempts: "[1 ..< 3 + 1] = [1, 2, 3::nat]"
  by (simp add: upt_rec)

lemma three_attempts: "goto_with_retries w u 3 s = goto_loop w u 3 [1, 2, 3] s"
  by (simp only: goto_with_retries_def upt_attempts)

text \<open>
  Claim C2 as stated says a time-out of the wait never starts another attempt. Here every
  \<open>page.goto\<close> returns and the wait of the first attempt raises: the loop sleeps and
  navigates a second time. When the wait raises in every attempt the result is \<open>False\<close>.
\<close>

theorem goto_with_retries_idle_timeout_counterexample:
  "goto_ok (calm\<lparr>idle_ok := \<lambda>i. 1 < i\<rparr>) 1 \<and>
   trace (snd (goto_with_retries (calm\<lparr>idle_ok := \<lambda>i. 1 < i\<rparr>) FINVIZ_URL 3 start)) =
     [Print (GotoAttempt 1 3), Goto FINVIZ_URL (lit ''domcontentloaded'') 90000,
      WaitNetworkIdle 60000, Sleep 3000,
      Print (GotoAttempt 2 3), Goto FINVIZ_URL (lit ''domcontentloaded'') 90000,
      WaitNetworkIdle 60000] \<and>
   fst (goto_with_retries (calm\<lparr>idle_ok := \<lambda>i. False\<rparr>) FINVIZ_URL 3 start) = False"
  by (simp add: three_attempts calm_def start_def Let_def goto_except_def emit_def)

text \<open>
  A world in which every wait times out satisfies the hypothesis of C2.
\<close>

theorem goto_with_retries_idle_timeout_witness:
  "\<not> idle_ok (calm\<lparr>idle_ok := \<lambda>i. False\<rparr>) 1 \<and>
   \<not> fst (goto_with_retries (calm\<lparr>idle_ok := \<lambda>i. False\<rparr>) FINVIZ_URL 3 start) \<and>
   trace (snd (goto_with_retries (calm\<lparr>idle_ok := \<lambda>i. False\<rparr>) FINVIZ_URL 3 start)) =
     [Print (GotoAttempt 1 3), Goto FINVIZ_URL (lit ''domcontentloaded'') 90000,
      WaitNetworkIdle 60000, Sleep 3000,
      Print (GotoAttempt 2 3), Goto FINVIZ_URL (lit ''domcontentloaded'') 90000,
      WaitNetworkIdle 60000, Sleep 4000,
      Print (GotoAttempt 3 3), Goto FINVIZ_URL (lit ''domcontentloaded'') 90000,
      WaitNetworkIdle 60000, Print GotoFailed, Sleep 5000] \<and>
   navigations (snd (goto_with_retries (calm\<lparr>idle_ok := \<lambda>i. False\<rparr>) FINVIZ_URL 3 start)) = 3"
proof -
  note h = goto_with_retries_idle_timeout [of "calm\<lparr>idle_ok := \<lambda>i. False\<rparr>" FINVIZ_URL 3 start]
  have 1: "\<not> fst (goto_with_retries (calm\<lparr>idle_ok := \<lambda>i. False\<rparr>) FINVIZ_URL 3 start)"
    using h [THEN conjunct1] by simp
  have 2: "navigations (snd (goto_with_retries (calm\<lparr>idle_ok := \<lambda>i. False\<rparr>) FINVIZ_URL 3 start)) = 3"
    using h [THEN conjunct2, THEN conjunct2] by (simp add: navigations_def start_def)
  have 3: "trace (snd (goto_with_retries (calm\<lparr>idle_ok := \<lambda>i. False\<rparr>) FINVIZ_URL 3 start)) =
     [Print (GotoAttempt 1 3), Goto FINVIZ_URL (lit ''domcontentloaded'') 90000,
      WaitNetworkIdle 60000, Sleep 3000,
      Print (GotoAttempt 2 3), Goto FINVIZ_URL (lit ''domcontentloaded'') 90000,
      WaitNetworkIdle 60000, Sleep 4000,
      Print (GotoAttempt 3 3), Goto FINVIZ_URL (lit ''domcontentloaded'') 90000,
      WaitNetworkIdle 60000, Print GotoFailed, Sleep 5000]"
    by (simp add: three_attempts calm_def start_def Let_def goto_except_def emit_def)
  show ?thesis using 1 2 3 by simp
qed

text \<open>
  Claim C3 as stated counts one navigation call when the first \<open>page.goto\<close> returns. Here
  it returns and the wait after it raises: two navigation calls are made.
\<close>

theorem goto_with_retries_calls_counterexample:
  "goto_ok (calm\<lparr>idle_ok := \<lambda>i. i \<noteq> 1\<rparr>) 1 \<and>
   navigations (snd (goto_with_retries (calm\<lparr>idle_ok := \<lambda>i. i \<noteq> 1\<rparr>) FINVIZ_URL 3 start)) = 2"
  by (simp add: three_attempts calm_def start_def Let_def goto_except_def
      emit_def navigations_def)

text \<open>
  Both hypotheses of C3 are met: a first success in attempt 2 of 3, and no success.
\<close>

theorem goto_with_retries_calls_witness:
  "\<not> goto_ok (calm\<lparr>goto_ok := \<lambda>i. 2 \<le> i\<rparr>) 1 \<and> goto_ok (calm\<lparr>goto_ok := \<lambda>i. 2 \<le> i\<rparr>) 2 \<and>
   idle_ok (calm\<lparr>goto_ok := \<lambda>i. 2 \<le> i\<rparr>) 2 \<and>
   fst (goto_with_retries (calm\<lparr>goto_ok := \<lambda>i. 2 \<le> i\<rparr>) FINVIZ_URL 3 start) \<and>
   navigations (snd (goto_with_retries (calm\<lparr>goto_ok := \<lambda>i. 2 \<le> i\<rparr>) FINVIZ_URL 3 start)) = 2 \<and>
   \<not> goto_ok (calm\<lparr>goto_ok := \<lambda>i. False\<rparr>) 1 \<and>
   \<not> fst (goto_with_retries (calm\<lparr>goto_ok := \<lambda>i. False\<rparr>) FINVIZ_URL 3 start) \<and>
   navigations (snd (goto_with_retries (calm\<lparr>goto_ok := \<lambda>i. False\<rparr>) FINVIZ_URL 3 start)) = 3 \<and>
   trace (snd (navigate (calm\<lparr>goto_ok := \<lambda>i. False\<rparr>) 3 start)) =
     trace (snd (goto_with_retries (calm\<lparr>goto_ok := \<lambda>i. False\<rparr>) FINVIZ_URL 3 start)) @
       [Goto FINVIZ_URL (lit ''load'') 120000]"
proof -
  have a: "\<forall>i. 1 \<le> i \<and> i < 2 \<longrightarrow> \<not> goto_ok (calm\<lparr>goto_ok := \<lambda>i. 2 \<le> i\<rparr>) i"
    by auto
  have b: "goto_ok (calm\<lparr>goto_ok := \<lambda>i. 2 \<le> i\<rparr>) 2" "idle_ok (calm\<lparr>goto_ok := \<lambda>i. 2 \<le> i\<rparr>) 2"
    by (simp_all add: calm_def)
  have c: "\<forall>i. 1 \<le> i \<and> i \<le> 3 \<longrightarrow> \<not> goto_ok (calm\<lparr>goto_ok := \<lambda>i. False\<rparr>) i"
    by simp
  show ?thesis
    using goto_with_retries_calls [of 2 3 "calm\<lparr>goto_ok := \<lambda>i. 2 \<le> i\<rparr>" FINVIZ_URL start]
      goto_with_retries_calls [of 1 3 "calm\<lparr>goto_ok := \<lambda>i. False\<rparr>" FINVIZ_URL start]
      a b c
    by (simp add: navigations_def start_def)
qed

lemma call_simps [simp]:
  "fst (call e ok s) = (if ok then Inr () else Inl (Raised e))" "snd (call e ok s) = emit e s"
  by (simp_all add: call_def)

lemma and_then_fst_snd:
  "and_then m f = (case fst m of Inl e \<Rightarrow> (Inl e, snd m) | Inr x \<Rightarrow> f x (snd m))"
  by (cases m) (simp add: and_then_def split: sum.splits)

lemma open_page_keeps:
  "e = BrowserClose \<or> e = PageScreenshot \<Longrightarrow>
     (e \<in> set (trace (snd (open_page w s)))) = (e \<in> set (trace s))"
  by (auto simp: open_page_def call_def)

lemma navigate_keeps:
  "e = BrowserClose \<or> e = PageScreenshot \<Longrightarrow>
     (e \<in> set (trace (snd (navigate w n s)))) = (e \<in> set (trace s))"
  by (auto simp: navigate_def goto_with_retries_def split_beta goto_loop_keeps)

lemma take_screenshot_result:
  "fst (take_screenshot w sels s) =
     (if fst (element_loop w sels s) \<or> page_shot_ok w then Inr () else Inl (Raised PageScreenshot))"
  by (simp add: take_screenshot_def split_beta Let_def)

lemma take_screenshot_close:
  "(BrowserClose \<in> set (trace (snd (take_screenshot w sels s)))) = (BrowserClose \<in> set (trace s))"
  by (simp add: take_screenshot_def split_beta Let_def element_loop_keeps)

lemma take_screenshot_page:
  "PageScreenshot \<notin> set (trace s) \<Longrightarrow>
     (PageScreenshot \<in> set (trace (snd (take_screenshot w sels s)))) = (\<not> fst (element_loop w sels s))"
  by (simp add: take_screenshot_def split_beta Let_def element_loop_keeps)

lemma keep_latest_trace:
  "trace (keep_latest w s) = trace s @ (if copy_ok w then [CopyLatest] else [CopyLatest, Print LatestCopyFailed])"
  by (simp add: keep_latest_def Let_def)


lemma open_page_error:
  "fst (open_page w s) = Inl e \<Longrightarrow>
     e = Raised Launch \<or> e = Raised NewContext \<or> e = Raised NewPage \<or> e = Raised AddInitScript"
  by (auto simp: open_page_def call_def split: if_splits)

lemma navigate_error:
  "fst (navigate w n s) = Inl e \<Longrightarrow> e = Raised (Goto FINVIZ_URL (lit ''load'') 120000)"
  by (auto simp: navigate_def split_beta split: if_splits)

lemma capture_session_close:
  assumes "BrowserClose \<notin> set (trace s)"
  shows "(BrowserClose \<in> set (trace (snd (capture_session w s)))) =
           (fst (capture_session w s) = Inr () \<or> fst (capture_session w s) = Inl (Raised BrowserClose))"
proof (cases "fst (open_page w s)")
  case (Inl e)
  with open_page_error [OF Inl] assms show ?thesis
    by (auto simp: capture_session_def and_then_fst_snd open_page_keeps)
next
  case opened: (Inr u)
  define s1 where "s1 = snd (open_page w s)"
  have c1: "BrowserClose \<notin> set (trace s1)"
    using assms by (simp add: s1_def open_page_keeps)
  show ?thesis
  proof (cases "fst (navigate w 3 s1)")
    case (Inl e)
    with navigate_error [OF Inl] c1 opened show ?thesis
      by (auto simp: capture_session_def and_then_fst_snd s1_def navigate_keeps)
  next
    case nav: (Inr u')
    define s2 where "s2 = dismiss_loop w banner_selectors (snd (navigate w 3 s1))"
    have c2: "BrowserClose \<notin> set (trace s2)"
      using c1 by (simp add: s2_def dismiss_loop_keeps navigate_keeps)
    show ?thesis
    proof (cases "fst (take_screenshot w map_selectors s2)")
      case (Inl e)
      then have "e = Raised PageScreenshot"
        by (simp add: take_screenshot_result split: if_splits)
      with Inl c2 opened nav show ?thesis
        by (auto simp: capture_session_def and_then_fst_snd s1_def s2_def take_screenshot_close)
    next
      case (Inr u'')
      with opened nav show ?thesis
        by (auto simp: capture_session_def and_then_fst_snd s1_def s2_def)
    qed
  qed
qed

lemma fst_and_then:
  "fst (and_then m f) = (case fst m of Inl e \<Rightarrow> Inl e | Inr x \<Rightarrow> fst (f x (snd m)))"
  by (cases m) (simp add: and_then_def split: sum.splits)

lemma snd_and_then:
  "snd (and_then m f) = (case fst m of Inl e \<Rightarrow> snd m | Inr x \<Rightarrow> snd (f x (snd m)))"
  by (cases m) (simp add: and_then_def split: sum.splits)

lemma element_loop_result:
  "fst (element_loop w sels s) \<longleftrightarrow> (\<exists>sel \<in> set sels. query w sel = Element \<and> element_shot_ok w sel)"
  by (induction sels arbitrary: s) (auto simp: Let_def split: lookup.splits)

lemma element_loop_trace:
  "trace (snd (element_loop w sels s)) =
     trace s @
     concat (map (\<lambda>sel. QuerySelector sel #
                         (if query w sel = Element then [ElementScreenshot sel] else []))
               (takeWhile (\<lambda>sel. \<not> (query w sel = Element \<and> element_shot_ok w sel)) sels)) @
     (case find (\<lambda>sel. query w sel = Element \<and> element_shot_ok w sel) sels of
        None \<Rightarrow> []
      | Some sel \<Rightarrow> [QuerySelector sel, ElementScreenshot sel])"
  by (induction sels arbitrary: s) (auto simp: Let_def split: lookup.splits)

lemma element_loop_dated_eq:
  "dated (snd (element_loop w sels s)) =
     (case find (\<lambda>sel. query w sel = Element \<and> element_shot_ok w sel) sels of
        None \<Rightarrow> dated s
      | Some sel \<Rightarrow> Some (Cropped sel))"
  by (induction sels arbitrary: s) (auto simp: Let_def split: lookup.splits option.splits)

lemma find_None_Bex: "(find P xs = None) = (\<not> (\<exists>x \<in> set xs. P x))"
  by (auto simp: find_None_iff)

lemma take_screenshot_trace:
  "trace (snd (take_screenshot w sels s)) =
     trace s @
     concat (map (\<lambda>sel. QuerySelector sel #
                         (if query w sel = Element then [ElementScreenshot sel] else []))
               (takeWhile (\<lambda>sel. \<not> (query w sel = Element \<and> element_shot_ok w sel)) sels)) @
     (case find (\<lambda>sel. query w sel = Element \<and> element_shot_ok w sel) sels of
        None \<Rightarrow> [PageScreenshot]
      | Some sel \<Rightarrow> [QuerySelector sel, ElementScreenshot sel])"
proof (cases "find (\<lambda>sel. query w sel = Element \<and> element_shot_ok w sel) sels")
  case None
  then have "\<not> fst (element_loop w sels s)"
    by (simp add: element_loop_result find_None_Bex)
  with None show ?thesis
    by (simp add: take_screenshot_def split_beta Let_def element_loop_trace)
next
  case (Some sel)
  then have "fst (element_loop w sels s)"
    using find_None_Bex [of "\<lambda>sel. query w sel = Element \<and> element_shot_ok w sel" sels]
    by (simp add: element_loop_result)
  with Some show ?thesis
    by (simp add: take_screenshot_def split_beta Let_def element_loop_trace)
qed

lemma take_screenshot_dated_eq:
  "dated (snd (take_screenshot w sels s)) =
     (case find (\<lambda>sel. query w sel = Element \<and> element_shot_ok w sel) sels of
        None \<Rightarrow> if page_shot_ok w then Some FullPage else dated s
      | Some sel \<Rightarrow> Some (Cropped sel))"
proof (cases "find (\<lambda>sel. query w sel = Element \<and> element_shot_ok w sel) sels")
  case None
  then have "\<not> fst (element_loop w sels s)"
    by (simp add: element_loop_result find_None_Bex)
  with None show ?thesis
    by (simp add: take_screenshot_def split_beta Let_def element_loop_dated_eq)
next
  case (Some sel)
  then have "fst (element_loop w sels s)"
    using find_None_Bex [of "\<lambda>sel. query w sel = Element \<and> element_shot_ok w sel" sels]
    by (simp add: element_loop_result)
  with Some show ?thesis
    by (simp add: take_screenshot_def split_beta Let_def element_loop_dated_eq)
qed

lemma open_page_result:
  "fst (open_page w s) =
     (if \<not> launch_ok w then Inl (Raised Launch)
      else if \<not> context_ok w then Inl (Raised NewContext)
      else if \<not> page_ok w then Inl (Raised NewPage)
      else if \<not> script_ok w then Inl (Raised AddInitScript)
      else Inr ())"
  by (simp add: open_page_def call_def)

lemma navigate_result:
  "fst (navigate w n s) =
     (if (\<exists>i \<in> {1..n}. goto_ok w i \<and> idle_ok w i) \<or> fallback_ok w then Inr ()
      else Inl (Raised (Goto FINVIZ_URL (lit ''load'') 120000)))"
proof -
  have "fst (goto_with_retries w FINVIZ_URL n s) \<longleftrightarrow> (\<exists>i \<in> {1..n}. goto_ok w i \<and> idle_ok w i)"
    by (auto simp: goto_with_retries_def goto_loop_iff)
  then show ?thesis
    by (simp add: navigate_def split_beta)
qed

lemma capture_session_result:
  "fst (capture_session w s) =
     (if \<not> launch_ok w then Inl (Raised Launch)
      else if \<not> context_ok w then Inl (Raised NewContext)
      else if \<not> page_ok w then Inl (Raised NewPage)
      else if \<not> script_ok w then Inl (Raised AddInitScript)
      else if \<not> ((\<exists>i \<in> {1..3}. goto_ok w i \<and> idle_ok w i) \<or> fallback_ok w)
        then Inl (Raised (Goto FINVIZ_URL (lit ''load'') 120000))
      else if \<not> ((\<exists>sel \<in> set map_selectors. query w sel = Element \<and> element_shot_ok w sel) \<or>
                  page_shot_ok w)
        then Inl (Raised PageScreenshot)
      else if \<not> close_ok w then Inl (Raised BrowserClose)
      else Inr ())"
proof -
  define N where "N \<longleftrightarrow> (\<exists>i \<in> {1..3}. goto_ok w i \<and> idle_ok w i) \<or> fallback_ok w"
  define E where "E \<longleftrightarrow> (\<exists>sel \<in> set map_selectors. query w sel = Element \<and> element_shot_ok w sel) \<or>
                  page_shot_ok w"
  have 1: "fst (navigate w 3 s') =
      (if N then Inr () else Inl (Raised (Goto FINVIZ_URL (lit ''load'') 120000)))" for s'
    by (simp add: navigate_result N_def)
  have 2: "fst (take_screenshot w map_selectors s') =
      (if E then Inr () else Inl (Raised PageScreenshot))" for s'
    by (simp add: take_screenshot_result element_loop_result E_def)
  have "fst (capture_session w s) =
     (if \<not> launch_ok w then Inl (Raised Launch)
      else if \<not> context_ok w then Inl (Raised NewContext)
      else if \<not> page_ok w then Inl (Raised NewPage)
      else if \<not> script_ok w then Inl (Raised AddInitScript)
      else if \<not> N then Inl (Raised (Goto FINVIZ_URL (lit ''load'') 120000))
      else if \<not> E then Inl (Raised PageScreenshot)
      else if \<not> close_ok w then Inl (Raised BrowserClose)
      else Inr ())"
    unfolding capture_session_def fst_and_then
    by (simp add: open_page_result 1 2 split: sum.splits)
  then show ?thesis unfolding N_def E_def .
qed

lemma capture_heatmap_result:
  "fst (capture_heatmap w s) =
     (if \<not> playwright_ok w then Inl (Raised PlaywrightStart)
      else if \<not> launch_ok w then Inl (Raised Launch)
      else if \<not> context_ok w then Inl (Raised NewContext)
      else if \<not> page_ok w then Inl (Raised NewPage)
      else if \<not> script_ok w then Inl (Raised AddInitScript)
      else if \<not> ((\<exists>i \<in> {1..3}. goto_ok w i \<and> idle_ok w i) \<or> fallback_ok w)
        then Inl (Raised (Goto FINVIZ_URL (lit ''load'') 120000))
      else if \<not> ((\<exists>sel \<in> set map_selectors. query w sel = Element \<and> element_shot_ok w sel) \<or>
                  page_shot_ok w)
        then Inl (Raised PageScreenshot)
      else if \<not> close_ok w then Inl (Raised BrowserClose)
      else Inr ())"
  by (simp add: capture_heatmap_def call_def split_beta capture_session_result)

lemma and_then_inv:
  "P (snd m) \<Longrightarrow> (\<And>x s. P s \<Longrightarrow> P (snd (f x s))) \<Longrightarrow> P (snd (and_then m f))"
  by (cases m) (auto simp: and_then_def split: sum.splits)

lemma goto_loop_no_stop:
  "PlaywrightStop \<notin> set (trace s) \<Longrightarrow> PlaywrightStop \<notin> set (trace (snd (goto_loop w u n is s)))"
  by (simp add: goto_loop_trace split: option.splits)

lemma dismiss_loop_no_stop:
  "PlaywrightStop \<notin> set (trace s) \<Longrightarrow> PlaywrightStop \<notin> set (trace (dismiss_loop w sels s))"
  by (induction sels arbitrary: s) (auto simp: Let_def)

lemma take_screenshot_no_stop:
  "PlaywrightStop \<notin> set (trace s) \<Longrightarrow> PlaywrightStop \<notin> set (trace (snd (take_screenshot w sels s)))"
  by (simp add: take_screenshot_trace split: option.splits)

lemma capture_session_no_stop:
  assumes "PlaywrightStop \<notin> set (trace s)"
  shows "PlaywrightStop \<notin> set (trace (snd (capture_session w s)))"
  unfolding capture_session_def
proof (intro and_then_inv [where P = "\<lambda>s. PlaywrightStop \<notin> set (trace s)"])
  show "PlaywrightStop \<notin> set (trace (snd (open_page w s)))"
    using assms by (auto simp: open_page_def call_def)
next
  fix s' :: run assume "PlaywrightStop \<notin> set (trace s')"
  then show "PlaywrightStop \<notin> set (trace (snd (navigate w 3 s')))"
    by (simp add: navigate_def goto_with_retries_def split_beta goto_loop_no_stop)
next
  fix s' :: run assume "PlaywrightStop \<notin> set (trace s')"
  then show "PlaywrightStop \<notin> set (trace (snd (take_screenshot w map_selectors
                 (dismiss_loop w banner_selectors s'))))"
    by (simp add: take_screenshot_no_stop dismiss_loop_no_stop)
next
  fix s' :: run assume "PlaywrightStop \<notin> set (trace s')"
  then show "PlaywrightStop \<notin> set (trace (snd (call BrowserClose (close_ok w)
                 (emit (Print Saved) (keep_latest w s')))))"
    by (simp add: keep_latest_trace)
qed

lemma goto_loop_dated [simp]: "dated (snd (goto_loop w u n is s)) = dated s"
  by (induction "is" arbitrary: s) (simp_all add: Let_def goto_except_def)

lemma dismiss_loop_dated [simp]: "dated (dismiss_loop w sels s) = dated s"
  by (induction sels arbitrary: s) (simp_all add: Let_def)

lemma open_page_dated [simp]: "dated (snd (open_page w s)) = dated s"
  by (simp add: open_page_def call_def)

lemma navigate_dated [simp]: "dated (snd (navigate w n s)) = dated s"
  by (simp add: navigate_def goto_with_retries_def split_beta)

lemma keep_latest_dated [simp]: "dated (keep_latest w s) = dated s"
  by (simp add: keep_latest_def Let_def)

lemma capture_session_dated_eq:
  "dated (snd (capture_session w s)) =
     (if launch_ok w \<and> context_ok w \<and> page_ok w \<and> script_ok w \<and>
         ((\<exists>i \<in> {1..3}. goto_ok w i \<and> idle_ok w i) \<or> fallback_ok w)
      then (case find (\<lambda>sel. query w sel = Element \<and> element_shot_ok w sel) map_selectors of
              None \<Rightarrow> if page_shot_ok w then Some FullPage else dated s
            | Some sel \<Rightarrow> Some (Cropped sel))
      else dated s)"
proof -
  define N where "N \<longleftrightarrow> (\<exists>i \<in> {1..3}. goto_ok w i \<and> idle_ok w i) \<or> fallback_ok w"
  define D where "D = (case find (\<lambda>sel. query w sel = Element \<and> element_shot_ok w sel) map_selectors of
              None \<Rightarrow> if page_shot_ok w then Some FullPage else dated s
            | Some sel \<Rightarrow> Some (Cropped sel))"
  have 1: "fst (navigate w 3 s') =
      (if N then Inr () else Inl (Raised (Goto FINVIZ_URL (lit ''load'') 120000)))" for s'
    by (simp add: navigate_result N_def)
  have 2: "dated (snd (take_screenshot w map_selectors s')) = D" if "dated s' = dated s" for s'
    using that by (simp add: take_screenshot_dated_eq D_def split: option.splits)
  have "dated (snd (capture_session w s)) =
     (if launch_ok w \<and> context_ok w \<and> page_ok w \<and> script_ok w \<and> N then D else dated s)"
    unfolding capture_session_def snd_and_then
    by (simp add: open_page_result 1 2 split: sum.splits)
  then show ?thesis unfolding N_def D_def .
qed

lemma capture_heatmap_dated_eq:
  "dated (snd (capture_heatmap w s)) =
     (if playwright_ok w \<and> launch_ok w \<and> context_ok w \<and> page_ok w \<and> script_ok w \<and>
         ((\<exists>i \<in> {1..3}. goto_ok w i \<and> idle_ok w i) \<or> fallback_ok w)
      then (case find (\<lambda>sel. query w sel = Element \<and> element_shot_ok w sel) map_selectors of
              None \<Rightarrow> if page_shot_ok w then Some FullPage else dated s
            | Some sel \<Rightarrow> Some (Cropped sel))
      else dated s)"
  by (auto simp: capture_heatmap_def call_def split_beta capture_session_dated_eq split: option.splits)

text \<open>
  Claim C1, as amended. Once the \<open>async_playwright\<close> scope is entered it is left on every
  way out of \<open>capture_heatmap\<close>, with or without an exception: its exit is the last thing
  a run does, and it happens once. \<open>browser.close()\<close> is the last statement of the body
  and no \<open>finally\<close> guards it: it is called exactly on the runs that return or that fail
  in \<open>browser.close()\<close> itself, that is, exactly when Playwright starts, the browser, its
  context, the page and the init script are set up, the navigation or its fallback
  succeeds, and an element screenshot or the full-page screenshot succeeds. A failed
  click on a banner, a failed lookup, a failed element screenshot and a failed copy to the
  latest path are swallowed and play no part in it. The error that leaves
  \<open>capture_heatmap\<close> is that of the first of these steps that fails.
\<close>

theorem capture_heatmap_release:
  "(playwright_ok w \<longrightarrow>
      last (trace (snd (capture_heatmap w s))) = PlaywrightStop \<and>
      PlaywrightStop \<notin> set (butlast (trace (snd (capture_heatmap w start))))) \<and>
   (BrowserClose \<in> set (trace (snd (capture_heatmap w start))) \<longleftrightarrow>
      fst (capture_heatmap w start) = Inr () \<or>
      fst (capture_heatmap w start) = Inl (Raised BrowserClose)) \<and>
   (BrowserClose \<in> set (trace (snd (capture_heatmap w start))) \<longleftrightarrow>
      playwright_ok w \<and> launch_ok w \<and> context_ok w \<and> page_ok w \<and> script_ok w \<and>
      ((\<exists>i \<in> {1..3}. goto_ok w i \<and> idle_ok w i) \<or> fallback_ok w) \<and>
      ((\<exists>sel \<in> set map_selectors. query w sel = Element \<and> element_shot_ok w sel) \<or>
       page_shot_ok w)) \<and>
   fst (capture_heatmap w s) =
     (if \<not> playwright_ok w then Inl (Raised PlaywrightStart)
      else if \<not> launch_ok w then Inl (Raised Launch)
      else if \<not> context_ok w then Inl (Raised NewContext)
      else if \<not> page_ok w then Inl (Raised NewPage)
      else if \<not> script_ok w then Inl (Raised AddInitScript)
      else if \<not> ((\<exists>i \<in> {1..3}. goto_ok w i \<and> idle_ok w i) \<or> fallback_ok w)
        then Inl (Raised (Goto FINVIZ_URL (lit ''load'') 120000))
      else if \<not> ((\<exists>sel \<in> set map_selectors. query w sel = Element \<and> element_shot_ok w sel) \<or>
                  page_shot_ok w)
        then Inl (Raised PageScreenshot)
      else if \<not> close_ok w then Inl (Raised BrowserClose)
      else Inr ())"
proof -
  define N where "N \<longleftrightarrow> (\<exists>i \<in> {1..3}. goto_ok w i \<and> idle_ok w i) \<or> fallback_ok w"
  define E where "E \<longleftrightarrow> (\<exists>sel \<in> set map_selectors. query w sel = Element \<and> element_shot_ok w sel) \<or>
                  page_shot_ok w"
  have res: "fst (capture_heatmap w s') =
     (if \<not> playwright_ok w then Inl (Raised PlaywrightStart)
      else if \<not> launch_ok w then Inl (Raised Launch)
      else if \<not> context_ok w then Inl (Raised NewContext)
      else if \<not> page_ok w then Inl (Raised NewPage)
      else if \<not> script_ok w then Inl (Raised AddInitScript)
      else if \<not> N then Inl (Raised (Goto FINVIZ_URL (lit ''load'') 120000))
      else if \<not> E then Inl (Raised PageScreenshot)
      else if \<not> close_ok w then Inl (Raised BrowserClose)
      else Inr ())" for s'
    unfolding N_def E_def by (rule capture_heatmap_result)
  have "BrowserClose \<notin> set (trace (emit PlaywrightStart start))"
    by (simp add: start_def)
  from capture_session_close [OF this, of w]
  have close: "BrowserClose \<in> set (trace (snd (capture_heatmap w start))) \<longleftrightarrow>
      fst (capture_heatmap w start) = Inr () \<or>
      fst (capture_heatmap w start) = Inl (Raised BrowserClose)"
    by (cases "playwright_ok w") (auto simp: capture_heatmap_def call_def split_beta start_def)
  have world: "BrowserClose \<in> set (trace (snd (capture_heatmap w start))) \<longleftrightarrow>
      playwright_ok w \<and> launch_ok w \<and> context_ok w \<and> page_ok w \<and> script_ok w \<and> N \<and> E"
    unfolding close res by simp
  have stop: "last (trace (snd (capture_heatmap w s))) = PlaywrightStop \<and>
      PlaywrightStop \<notin> set (butlast (trace (snd (capture_heatmap w start))))"
    if "playwright_ok w"
  proof -
    have "PlaywrightStop \<notin> set (trace (emit PlaywrightStart start))"
      by (simp add: start_def)
    from capture_session_no_stop [OF this, of w] that show ?thesis
      by (simp add: capture_heatmap_def call_def split_beta)
  qed
  show ?thesis
    using stop close world [unfolded N_def E_def] res [of s, unfolded N_def E_def]
    by blast
qed

lemma dismiss_calm:
  "click_ok w = (\<lambda>sel. False) \<Longrightarrow>
     dismiss_loop w sels s = s\<lparr>trace := trace s @ map (\<lambda>sel. Click sel 1500) sels\<rparr>"
  by (induction sels arbitrary: s) (simp_all add: Let_def emit_def)

text \<open>
  Claim C1 as stated says \<open>browser.close\<close> is reached when the final fallback navigation
  raises. With every navigation failing, the error of the fallback \<open>page.goto\<close> leaves
  \<open>capture_heatmap\<close> and \<open>browser.close\<close> is not called.
\<close>

theorem capture_heatmap_release_counterexample:
  "fst (capture_heatmap (calm\<lparr>goto_ok := \<lambda>i. False, fallback_ok := False\<rparr>) start)
     = Inl (Raised (Goto FINVIZ_URL (lit ''load'') 120000)) \<and>
   BrowserClose \<notin> set (trace (snd (capture_heatmap (calm\<lparr>goto_ok := \<lambda>i. False, fallback_ok := False\<rparr>) start)))"
  by (simp add: capture_heatmap_def capture_session_def open_page_def navigate_def
      three_attempts call_def calm_def start_def Let_def goto_except_def emit_def)

text \<open>
  A run in which Playwright starts and the navigation fails, and a run that closes the
  browser.
\<close>

theorem capture_heatmap_release_witness:
  "playwright_ok (calm\<lparr>goto_ok := \<lambda>i. False, fallback_ok := False\<rparr>) \<and>
   last (trace (snd (capture_heatmap (calm\<lparr>goto_ok := \<lambda>i. False, fallback_ok := False\<rparr>) start)))
     = PlaywrightStop \<and>
   BrowserClose \<in> set (trace (snd (capture_heatmap calm start))) \<and>
   fst (capture_heatmap calm start) = Inr ()"
proof -
  have ok: "fst (capture_heatmap calm start) = Inr ()"
    by (simp add: capture_heatmap_def capture_session_def open_page_def navigate_def
      three_attempts call_def calm_def start_def Let_def take_screenshot_def split_beta
      element_loop_no_match dismiss_calm map_selectors_def banner_selectors_def and_then_fst_snd)
  note f = capture_heatmap_release [of "calm\<lparr>goto_ok := \<lambda>i. False, fallback_ok := False\<rparr>" start]
  note g = capture_heatmap_release [of calm start]
  have 1: "last (trace (snd (capture_heatmap (calm\<lparr>goto_ok := \<lambda>i. False, fallback_ok := False\<rparr>) start)))
     = PlaywrightStop"
    using f [THEN conjunct1] by (simp add: calm_def)
  have 2: "BrowserClose \<in> set (trace (snd (capture_heatmap calm start)))"
    using g [THEN conjunct2, THEN conjunct1] ok by simp
  show ?thesis
    using 1 2 ok by (simp add: calm_def)
qed


lemma capture_session_page:
  assumes "PageScreenshot \<notin> set (trace s)" "\<not> page_shot_ok w"
    and "PageScreenshot \<in> set (trace (snd (capture_session w s)))"
  shows "fst (capture_session w s) = Inl (Raised PageScreenshot)"
proof (cases "fst (open_page w s)")
  case (Inl e)
  with assms show ?thesis
    by (auto simp: capture_session_def and_then_fst_snd open_page_keeps)
next
  case opened: (Inr u)
  define s1 where "s1 = snd (open_page w s)"
  have c1: "PageScreenshot \<notin> set (trace s1)"
    using assms(1) by (simp add: s1_def open_page_keeps)
  show ?thesis
  proof (cases "fst (navigate w 3 s1)")
    case (Inl e)
    with c1 opened assms(3) show ?thesis
      by (auto simp: capture_session_def and_then_fst_snd s1_def navigate_keeps)
  next
    case nav: (Inr u')
    define s2 where "s2 = dismiss_loop w banner_selectors (snd (navigate w 3 s1))"
    have c2: "PageScreenshot \<notin> set (trace s2)"
      using c1 by (simp add: s2_def dismiss_loop_keeps navigate_keeps)
    show ?thesis
    proof (cases "fst (element_loop w map_selectors s2)")
      case True
      then have "fst (take_screenshot w map_selectors s2) = Inr ()"
        and "PageScreenshot \<notin> set (trace (snd (take_screenshot w map_selectors s2)))"
        using c2 by (simp_all add: take_screenshot_result take_screenshot_page)
      with opened nav assms(3) show ?thesis
        by (auto simp: capture_session_def and_then_fst_snd s1_def s2_def keep_latest_trace
            split: if_splits)
    next
      case False
      with assms(2) have "fst (take_screenshot w map_selectors s2) = Inl (Raised PageScreenshot)"
        by (simp add: take_screenshot_result)
      with opened nav show ?thesis
        by (simp add: capture_session_def and_then_fst_snd s1_def s2_def)
    qed
  qed
qed

text \<open>
  Claim C4, as amended. The screenshot block fails in one way only, the full-page
  screenshot raising; that error is fatal and leaves \<open>capture_heatmap\<close>. An element
  screenshot that raises is swallowed by the bare \<open>except\<close> and the next selector is
  tried: the block queries the selectors in order, takes a screenshot of every element
  found, up to the first one whose screenshot returns, and takes the full-page screenshot
  exactly when no element screenshot has returned. The dated artifact is the first
  element whose screenshot returned, or else the full page.
\<close>

theorem screenshot_failure_modes:
  "fst (take_screenshot w sels s) =
     (if (\<exists>sel \<in> set sels. query w sel = Element \<and> element_shot_ok w sel) \<or> page_shot_ok w
      then Inr () else Inl (Raised PageScreenshot)) \<and>
   trace (snd (take_screenshot w sels s)) =
     trace s @
     concat (map (\<lambda>sel. QuerySelector sel #
                         (if query w sel = Element then [ElementScreenshot sel] else []))
               (takeWhile (\<lambda>sel. \<not> (query w sel = Element \<and> element_shot_ok w sel)) sels)) @
     (case find (\<lambda>sel. query w sel = Element \<and> element_shot_ok w sel) sels of
        None \<Rightarrow> [PageScreenshot]
      | Some sel \<Rightarrow> [QuerySelector sel, ElementScreenshot sel]) \<and>
   dated (snd (take_screenshot w sels s)) =
     (case find (\<lambda>sel. query w sel = Element \<and> element_shot_ok w sel) sels of
        None \<Rightarrow> if page_shot_ok w then Some FullPage else dated s
      | Some sel \<Rightarrow> Some (Cropped sel)) \<and>
   (\<not> page_shot_ok w \<and> PageScreenshot \<in> set (trace (snd (capture_heatmap w start))) \<longrightarrow>
      fst (capture_heatmap w start) = Inl (Raised PageScreenshot))"
proof (intro conjI impI)
  assume h: "\<not> page_shot_ok w \<and> PageScreenshot \<in> set (trace (snd (capture_heatmap w start)))"
  then have pw: "playwright_ok w"
    by (cases "playwright_ok w") (auto simp: capture_heatmap_def call_def start_def)
  have "PageScreenshot \<notin> set (trace (emit PlaywrightStart start))"
    by (simp add: start_def)
  moreover from h pw
  have "PageScreenshot \<in> set (trace (snd (capture_session w (emit PlaywrightStart start))))"
    by (simp add: capture_heatmap_def call_def split_beta)
  ultimately have "fst (capture_session w (emit PlaywrightStart start)) = Inl (Raised PageScreenshot)"
    using h by (intro capture_session_page) simp_all
  with pw show "fst (capture_heatmap w start) = Inl (Raised PageScreenshot)"
    by (simp add: capture_heatmap_def call_def split_beta)
next
  show "fst (take_screenshot w sels s) =
     (if (\<exists>sel \<in> set sels. query w sel = Element \<and> element_shot_ok w sel) \<or> page_shot_ok w
      then Inr () else Inl (Raised PageScreenshot))"
    by (simp add: take_screenshot_result element_loop_result)
qed (simp_all only: take_screenshot_trace take_screenshot_dated_eq)

text \<open>
  Claim C4 as stated says an element screenshot that raises propagates. Here \<open>#map\<close> is
  found, its screenshot raises, the full page is taken instead and \<open>capture_heatmap\<close>
  returns.
\<close>

theorem screenshot_failure_modes_counterexample:
  "query (calm\<lparr>query := \<lambda>sel. if sel = lit ''#map'' then Element else NoElement,
                element_shot_ok := \<lambda>sel. False\<rparr>) (lit ''#map'') = Element \<and>
   \<not> element_shot_ok (calm\<lparr>query := \<lambda>sel. if sel = lit ''#map'' then Element else NoElement,
                element_shot_ok := \<lambda>sel. False\<rparr>) (lit ''#map'') \<and>
   ElementScreenshot (lit ''#map'') \<in> set (trace (snd (capture_heatmap
      (calm\<lparr>query := \<lambda>sel. if sel = lit ''#map'' then Element else NoElement,
            element_shot_ok := \<lambda>sel. False\<rparr>) start))) \<and>
   fst (capture_heatmap (calm\<lparr>query := \<lambda>sel. if sel = lit ''#map'' then Element else NoElement,
                               element_shot_ok := \<lambda>sel. False\<rparr>) start) = Inr ()"
  by (simp add: capture_heatmap_def capture_session_def open_page_def navigate_def
      three_attempts call_def calm_def start_def Let_def take_screenshot_def split_beta
      dismiss_calm map_selectors_def banner_selectors_def keep_latest_def emit_def lit_def)


text \<open>
  A run in which the full-page screenshot is called and raises, and one in which it
  returns.
\<close>

theorem screenshot_failure_modes_witness:
  "\<not> page_shot_ok (calm\<lparr>page_shot_ok := False\<rparr>) \<and>
   PageScreenshot \<in> set (trace (snd (capture_heatmap (calm\<lparr>page_shot_ok := False\<rparr>) start))) \<and>
   fst (capture_heatmap (calm\<lparr>page_shot_ok := False\<rparr>) start) = Inl (Raised PageScreenshot) \<and>
   page_shot_ok calm \<and>
   fst (take_screenshot calm map_selectors start) = Inr ()"
proof -
  have 1: "PageScreenshot \<in> set (trace (snd (capture_heatmap (calm\<lparr>page_shot_ok := False\<rparr>) start)))"
    by (simp add: capture_heatmap_def capture_session_def open_page_def navigate_def
      three_attempts call_def calm_def start_def Let_def take_screenshot_def split_beta
      dismiss_calm map_selectors_def banner_selectors_def emit_def)
  note f = screenshot_failure_modes [of "calm\<lparr>page_shot_ok := False\<rparr>" map_selectors start]
  note g = screenshot_failure_modes [of calm map_selectors start]
  have 2: "fst (capture_heatmap (calm\<lparr>page_shot_ok := False\<rparr>) start) = Inl (Raised PageScreenshot)"
    using f [THEN conjunct2, THEN conjunct2, THEN conjunct2] 1 by simp
  have 3: "fst (take_screenshot calm map_selectors start) = Inr ()"
    using g [THEN conjunct1] by (simp add: calm_def)
  show ?thesis
    using 1 2 3 by (simp add: calm_def)
qed

text \<open>
  Claim C5, as amended. If the lookup finds an element for the selector at position \<open>n\<close> of
  the list only, and the screenshot of that element returns, the block queries the
  selectors up to that one, screenshots that element and stops: no further lookup and no
  full-page screenshot. If no selector finds an element, the loop ends without a
  screenshot and without raising, and the full-page screenshot is the one call that
  follows.
\<close>

theorem element_fallback_chain:
  "(n < length map_selectors \<and> query w (map_selectors ! n) = Element \<and>
    (\<forall>j < length map_selectors. j \<noteq> n \<longrightarrow> query w (map_selectors ! j) \<noteq> Element) \<and>
    element_shot_ok w (map_selectors ! n) \<longrightarrow>
      take_screenshot w map_selectors s =
        (Inr (), s\<lparr>trace := trace s @ map QuerySelector (take (Suc n) map_selectors) @
                               [ElementScreenshot (map_selectors ! n)],
                    dated := Some (Cropped (map_selectors ! n))\<rparr>)) \<and>
   ((\<forall>sel \<in> set map_selectors. query w sel \<noteq> Element) \<longrightarrow>
      element_loop w map_selectors s =
        (False, s\<lparr>trace := trace s @ map QuerySelector map_selectors\<rparr>) \<and>
      trace (snd (take_screenshot w map_selectors s)) =
        trace s @ map QuerySelector map_selectors @ [PageScreenshot] \<and>
      (page_shot_ok w \<longrightarrow>
         fst (take_screenshot w map_selectors s) = Inr () \<and>
         dated (snd (take_screenshot w map_selectors s)) = Some FullPage))"
proof (intro conjI impI)
  assume h: "n < length map_selectors \<and> query w (map_selectors ! n) = Element \<and>
    (\<forall>j < length map_selectors. j \<noteq> n \<longrightarrow> query w (map_selectors ! j) \<noteq> Element) \<and>
    element_shot_ok w (map_selectors ! n)"
  then have "\<forall>j < n. query w (map_selectors ! j) \<noteq> Element" by auto
  with h have "element_loop w map_selectors s =
      (True, s\<lparr>trace := trace s @ map QuerySelector (take (Suc n) map_selectors) @
                               [ElementScreenshot (map_selectors ! n)],
                dated := Some (Cropped (map_selectors ! n))\<rparr>)"
    by (intro element_loop_nth) simp_all
  then show "take_screenshot w map_selectors s =
        (Inr (), s\<lparr>trace := trace s @ map QuerySelector (take (Suc n) map_selectors) @
                               [ElementScreenshot (map_selectors ! n)],
                    dated := Some (Cropped (map_selectors ! n))\<rparr>)"
    by (simp add: take_screenshot_def)
next
  assume h: "\<forall>sel \<in> set map_selectors. query w sel \<noteq> Element"
  note nm = element_loop_no_match [OF h, of s]
  show "element_loop w map_selectors s =
        (False, s\<lparr>trace := trace s @ map QuerySelector map_selectors\<rparr>)"
    by (rule nm)
  show "trace (snd (take_screenshot w map_selectors s)) =
        trace s @ map QuerySelector map_selectors @ [PageScreenshot]"
    by (simp add: take_screenshot_def nm Let_def)
  assume "page_shot_ok w"
  then show "fst (take_screenshot w map_selectors s) = Inr ()"
    and "dated (snd (take_screenshot w map_selectors s)) = Some FullPage"
    by (simp_all add: take_screenshot_def nm Let_def)
qed

text \<open>
  Claim C5 as stated says the full page is not taken when one selector matches. Here only
  \<open>canvas\<close> matches and its screenshot raises: the full page is taken.
\<close>

theorem element_fallback_chain_counterexample:
  "query (calm\<lparr>query := \<lambda>sel. if sel = lit ''canvas'' then Element else NoElement,
                element_shot_ok := \<lambda>sel. False\<rparr>) (map_selectors ! 3) = Element \<and>
   query (calm\<lparr>query := \<lambda>sel. if sel = lit ''canvas'' then Element else NoElement,
                element_shot_ok := \<lambda>sel. False\<rparr>) (map_selectors ! 0) = NoElement \<and>
   query (calm\<lparr>query := \<lambda>sel. if sel = lit ''canvas'' then Element else NoElement,
                element_shot_ok := \<lambda>sel. False\<rparr>) (map_selectors ! 1) = NoElement \<and>
   query (calm\<lparr>query := \<lambda>sel. if sel = lit ''canvas'' then Element else NoElement,
                element_shot_ok := \<lambda>sel. False\<rparr>) (map_selectors ! 2) = NoElement \<and>
   take_screenshot (calm\<lparr>query := \<lambda>sel. if sel = lit ''canvas'' then Element else NoElement,
                          element_shot_ok := \<lambda>sel. False\<rparr>) map_selectors start =
     (Inr (), \<lparr>trace = [QuerySelector (lit ''#map''), QuerySelector (map_selectors ! 1),
                        QuerySelector (map_selectors ! 2), QuerySelector (lit ''canvas''),
                        ElementScreenshot (lit ''canvas''), PageScreenshot],
               dated = Some FullPage, latest = None\<rparr>)"
  by (simp add: take_screenshot_def calm_def start_def Let_def map_selectors_def emit_def lit_def)

text \<open>
  A world in which only \<open>canvas\<close> matches, and one in which nothing matches.
\<close>

theorem element_fallback_chain_witness:
  "query (calm\<lparr>query := \<lambda>sel. if sel = lit ''canvas'' then Element else NoElement\<rparr>)
      (map_selectors ! 3) = Element \<and>
   element_shot_ok (calm\<lparr>query := \<lambda>sel. if sel = lit ''canvas'' then Element else NoElement\<rparr>)
      (map_selectors ! 3) \<and>
   take_screenshot (calm\<lparr>query := \<lambda>sel. if sel = lit ''canvas'' then Element else NoElement\<rparr>)
      map_selectors start =
     (Inr (), \<lparr>trace = [QuerySelector (lit ''#map''), QuerySelector (map_selectors ! 1),
                        QuerySelector (map_selectors ! 2), QuerySelector (lit ''canvas''),
                        ElementScreenshot (lit ''canvas'')],
               dated = Some (Cropped (lit ''canvas'')), latest = None\<rparr>) \<and>
   query calm (map_selectors ! 0) = NoElement \<and>
   element_loop calm map_selectors start =
     (False, \<lparr>trace = map QuerySelector map_selectors, dated = None, latest = None\<rparr>) \<and>
   take_screenshot calm map_selectors start =
     (Inr (), \<lparr>trace = map QuerySelector map_selectors @ [PageScreenshot],
               dated = Some FullPage, latest = None\<rparr>)"
proof -
  let ?w = "calm\<lparr>query := \<lambda>sel. if sel = lit ''canvas'' then Element else NoElement\<rparr>"
  have a: "3 < length map_selectors \<and> query ?w (map_selectors ! 3) = Element \<and>
    (\<forall>j < length map_selectors. j \<noteq> 3 \<longrightarrow> query ?w (map_selectors ! j) \<noteq> Element) \<and>
    element_shot_ok ?w (map_selectors ! 3)"
    by (auto simp: map_selectors_def calm_def lit_def less_Suc_eq numeral_eq_Suc)
  have b: "\<forall>sel \<in> set map_selectors. query calm sel \<noteq> Element"
    by (simp add: calm_def)
  have c: "page_shot_ok calm" by (simp add: calm_def)
  from element_fallback_chain [of 3 ?w start] a
  have 1: "take_screenshot ?w map_selectors start =
        (Inr (), start\<lparr>trace := trace start @ map QuerySelector (take (Suc 3) map_selectors) @
                               [ElementScreenshot (map_selectors ! 3)],
                    dated := Some (Cropped (map_selectors ! 3))\<rparr>)"
    by blast
  from element_fallback_chain [of 0 calm start] b c
  have 2: "element_loop calm map_selectors start =
        (False, start\<lparr>trace := trace start @ map QuerySelector map_selectors\<rparr>)"
    and 3: "trace (snd (take_screenshot calm map_selectors start)) =
        trace start @ map QuerySelector map_selectors @ [PageScreenshot]"
    and 4: "fst (take_screenshot calm map_selectors start) = Inr ()"
    and 5: "dated (snd (take_screenshot calm map_selectors start)) = Some FullPage"
    by blast+
  have 6: "latest (snd (take_screenshot calm map_selectors start)) = None"
    by (simp add: take_screenshot_def 2 Let_def split: if_splits) (simp add: start_def)
  have 7: "take_screenshot calm map_selectors start =
     (Inr (), \<lparr>trace = map QuerySelector map_selectors @ [PageScreenshot],
               dated = Some FullPage, latest = None\<rparr>)"
    using 3 4 5 6 by (cases "take_screenshot calm map_selectors start") (auto simp: start_def)
  show ?thesis
    using a 1 2 7 by (simp add: start_def) (simp add: map_selectors_def calm_def)
qed

section \<open>Properties of the orchestrator and of persistence\<close>

text \<open>
  Claim C6. When the data row (the second row of the sheet) has fewer than nine cells,
  \<open>read_google_sheet\<close> raises \<open>ValueError\<close>, and \<open>main\<close> ends with that error having
  printed its banner and fetched the sheet and nothing else: the message is not formatted
  or printed, and no call of the capture pipeline is made.
\<close>

theorem short_row_is_fatal:
  "sheet w = Body (header # row # rest) \<and> length row < 9 \<longrightarrow>
     fst (read_google_sheet w s) = Inl ValueError \<and>
     main a b w s =
       (Inl ValueError,
        emit HttpGet (emit (Print BannerRule) (emit (Print BannerTitle) (emit (Print BannerRule) s))))"
  by (simp add: read_google_sheet_def main_def Let_def)

text \<open>
  A sheet whose data row has two cells.
\<close>

theorem short_row_is_fatal_witness:
  "sheet (calm\<lparr>sheet := Body [[lit ''Date''], [lit ''2024-06-01'', lit ''+0.5'']]\<rparr>)
     = Body [[lit ''Date''], [lit ''2024-06-01'', lit ''+0.5'']] \<and>
   length [lit ''2024-06-01'', lit ''+0.5''] < 9 \<and>
   fst (read_google_sheet (calm\<lparr>sheet := Body [[lit ''Date''], [lit ''2024-06-01'', lit ''+0.5'']]\<rparr>) start)
     = Inl ValueError \<and>
   main (lit ''$'') (lit ''$'') (calm\<lparr>sheet := Body [[lit ''Date''], [lit ''2024-06-01'', lit ''+0.5'']]\<rparr>) start =
     (Inl ValueError,
      \<lparr>trace = [Print BannerRule, Print BannerTitle, Print BannerRule, HttpGet],
       dated = None, latest = None\<rparr>)"
  using short_row_is_fatal [of "calm\<lparr>sheet := Body [[lit ''Date''], [lit ''2024-06-01'', lit ''+0.5'']]\<rparr>"
      "[lit ''Date'']" "[lit ''2024-06-01'', lit ''+0.5'']" "[]" start "lit ''$''" "lit ''$''"]
  by (simp add: start_def emit_def)

lemma and_then_assoc:
  "and_then (and_then m f) g = and_then m (\<lambda>x s. and_then (f x s) g)"
  by (cases m) (simp add: and_then_def split: sum.splits)

lemma goto_loop_copy [simp]: "goto_loop (w\<lparr>copy_ok := c\<rparr>) u n is s = goto_loop w u n is s"
  by (induction "is" arbitrary: s) (simp_all add: Let_def)

lemma dismiss_loop_copy [simp]: "dismiss_loop (w\<lparr>copy_ok := c\<rparr>) sels s = dismiss_loop w sels s"
  by (induction sels arbitrary: s) (simp_all add: Let_def)

lemma element_loop_copy [simp]: "element_loop (w\<lparr>copy_ok := c\<rparr>) sels s = element_loop w sels s"
  by (induction sels arbitrary: s) (simp_all add: Let_def split: lookup.splits)

lemma open_page_copy [simp]: "open_page (w\<lparr>copy_ok := c\<rparr>) s = open_page w s"
  by (simp add: open_page_def)

lemma navigate_copy [simp]: "navigate (w\<lparr>copy_ok := c\<rparr>) n s = navigate w n s"
  by (simp add: navigate_def goto_with_retries_def split_beta)

lemma take_screenshot_copy [simp]:
  "take_screenshot (w\<lparr>copy_ok := c\<rparr>) sels s = take_screenshot w sels s"
  by (simp add: take_screenshot_def split_beta Let_def)

lemma capture_session_split:
  "capture_session w s =
     and_then
       (and_then (open_page w s) (\<lambda>_ s.
        and_then (navigate w 3 s) (\<lambda>_ s.
        take_screenshot w map_selectors (dismiss_loop w banner_selectors s))))
       (\<lambda>_ s. call BrowserClose (close_ok w) (emit (Print Saved) (keep_latest w s)))"
  by (simp add: capture_session_def and_then_assoc)

lemma capture_session_copy:
  "fst (capture_session (w\<lparr>copy_ok := c\<rparr>) s) = fst (capture_session w s) \<and>
   dated (snd (capture_session (w\<lparr>copy_ok := c\<rparr>) s)) = dated (snd (capture_session w s))"
proof -
  define m where "m = and_then (open_page w s) (\<lambda>_ s.
        and_then (navigate w 3 s) (\<lambda>_ s.
        take_screenshot w map_selectors (dismiss_loop w banner_selectors s)))"
  have 1: "capture_session w s =
      and_then m (\<lambda>_ s. call BrowserClose (close_ok w) (emit (Print Saved) (keep_latest w s)))"
    by (simp add: capture_session_split m_def)
  have 2: "capture_session (w\<lparr>copy_ok := c\<rparr>) s =
      and_then m (\<lambda>_ s. call BrowserClose (close_ok w)
                           (emit (Print Saved) (keep_latest (w\<lparr>copy_ok := c\<rparr>) s)))"
    by (simp add: capture_session_split m_def)
  show ?thesis
    unfolding 1 2
    by (cases m) (auto simp: and_then_def call_def keep_latest_def Let_def split: sum.splits)
qed

lemma capture_heatmap_copy:
  "fst (capture_heatmap (w\<lparr>copy_ok := c\<rparr>) s) = fst (capture_heatmap w s) \<and>
   dated (snd (capture_heatmap (w\<lparr>copy_ok := c\<rparr>) s)) = dated (snd (capture_heatmap w s))"
  using capture_session_copy [of c w "emit PlaywrightStart s"]
  by (simp add: capture_heatmap_def call_def split_beta)

lemma write_output_result:
  "fst (write_output w m s) =
     (case gh_output w of
        None \<Rightarrow> Inr ()
      | Some path \<Rightarrow>
          if path = [] \<or> output_ok w then Inr ()
          else Inl (Raised (AppendOutput path
                 (lit ''market_text<<EOF'' @ [newline] @ m @ [newline] @ lit ''EOF'' @ [newline]))))"
  by (simp add: write_output_def call_def split: option.splits)

lemma read_google_sheet_copy [simp]:
  "read_google_sheet (w\<lparr>copy_ok := c\<rparr>) s = read_google_sheet w s"
  by (simp add: read_google_sheet_def)

lemma fst_write_output_copy:
  "fst (write_output (w\<lparr>copy_ok := c\<rparr>) m s) = fst (write_output w m s')"
  by (simp add: write_output_result split: option.splits)

lemma main_copy: "fst (main a b (w\<lparr>copy_ok := c\<rparr>) s) = fst (main a b w s)"
proof (cases "read_google_sheet w
    (emit (Print BannerRule) (emit (Print BannerTitle) (emit (Print BannerRule) s)))")
  case (Pair r s1)
  show ?thesis
  proof (cases r)
    case (Inl e)
    with Pair show ?thesis by (simp add: main_def Let_def)
  next
    case (Inr d)
    define m where "m = format_slack_message a b d"
    define x where "x = capture_heatmap w (emit (Print (SheetData m)) s1)"
    define x' where "x' = capture_heatmap (w\<lparr>copy_ok := c\<rparr>) (emit (Print (SheetData m)) s1)"
    have same: "fst x' = fst x"
      by (simp add: x_def x'_def capture_heatmap_copy)
    have 1: "main a b w s = and_then x (\<lambda>_ s.
                 and_then (write_output w m s) (\<lambda>_ s. (Inr (), emit (Print Done) s)))"
      using Pair Inr by (simp add: main_def Let_def m_def x_def)
    have 2: "main a b (w\<lparr>copy_ok := c\<rparr>) s = and_then x' (\<lambda>_ s.
                 and_then (write_output (w\<lparr>copy_ok := c\<rparr>) m s) (\<lambda>_ s. (Inr (), emit (Print Done) s)))"
      using Pair Inr by (simp add: main_def Let_def m_def x'_def)
    show ?thesis
    proof (cases "fst x")
      case (Inl e)
      with same show ?thesis by (simp add: 1 2 fst_and_then)
    next
      case (Inr u)
      with same show ?thesis
        by (simp add: 1 2 fst_and_then fst_write_output_copy [of c w m "snd x'" "snd x"]
            split: sum.splits)
    qed
  qed
qed

lemma element_loop_dated:
  "fst (element_loop w sels s) \<Longrightarrow> dated (snd (element_loop w sels s)) \<noteq> None"
  by (induction sels arbitrary: s) (auto simp: Let_def split: lookup.splits)

lemma take_screenshot_dated:
  "fst (take_screenshot w sels s) = Inr () \<Longrightarrow> dated (snd (take_screenshot w sels s)) \<noteq> None"
  by (cases "fst (element_loop w sels s)")
     (auto simp: take_screenshot_def split_beta Let_def element_loop_dated split: if_splits)

lemma capture_session_dated:
  assumes "fst (capture_session w s) = Inr ()"
  shows "dated (snd (capture_session w s)) \<noteq> None"
proof -
  define m where "m = and_then (open_page w s) (\<lambda>_ s.
        and_then (navigate w 3 s) (\<lambda>_ s.
        take_screenshot w map_selectors (dismiss_loop w banner_selectors s)))"
  have 1: "capture_session w s =
      and_then m (\<lambda>_ s. call BrowserClose (close_ok w) (emit (Print Saved) (keep_latest w s)))"
    by (simp add: capture_session_split m_def)
  from assms have ok: "fst m = Inr ()"
    unfolding 1 by (cases m) (auto simp: and_then_def split: sum.splits)
  have "dated (snd m) \<noteq> None"
  proof (cases "open_page w s")
    case p1: (Pair r1 s1)
    show ?thesis
    proof (cases r1)
      case (Inl e)
      with p1 ok show ?thesis by (simp add: m_def)
    next
      case r1: (Inr u1)
      show ?thesis
      proof (cases "navigate w 3 s1")
        case p2: (Pair r2 s2)
        show ?thesis
        proof (cases r2)
          case (Inl e)
          with p1 r1 p2 ok show ?thesis by (simp add: m_def)
        next
          case (Inr u2)
          with p1 r1 p2 ok show ?thesis
            by (simp add: m_def take_screenshot_dated)
        qed
      qed
    qed
  qed
  then show ?thesis
    unfolding 1 using ok
    by (cases m) (auto simp: and_then_def call_def keep_latest_def Let_def split: sum.splits)
qed

text \<open>
  Claim C9, as amended. A failure of the copy to the latest path changes neither the
  result of \<open>capture_heatmap\<close> nor the dated artifact nor the result of \<open>main\<close>: each is
  what it is when the copy succeeds, and the failed copy leaves a line in the log only.
  A failure writing the dated artifact is fatal only when it is the full-page screenshot
  that fails: an element screenshot writes the dated path too, and when it fails the
  error is swallowed and the next selector or the full page is written instead, so that
  with a working full-page screenshot the result does not depend on the element
  screenshots. \<open>capture_heatmap\<close> returns only with the dated artifact written; it ends
  with the error of the full-page screenshot exactly when the page was reached and no
  screenshot call returned.
\<close>

theorem latest_copy_failure_is_swallowed:
  "fst (capture_heatmap (w\<lparr>copy_ok := False\<rparr>) s) = fst (capture_heatmap (w\<lparr>copy_ok := True\<rparr>) s) \<and>
   dated (snd (capture_heatmap (w\<lparr>copy_ok := False\<rparr>) s))
     = dated (snd (capture_heatmap (w\<lparr>copy_ok := True\<rparr>) s)) \<and>
   fst (main a b (w\<lparr>copy_ok := False\<rparr>) s) = fst (main a b (w\<lparr>copy_ok := True\<rparr>) s) \<and>
   keep_latest (w\<lparr>copy_ok := False\<rparr>) s = emit (Print LatestCopyFailed) (emit CopyLatest s) \<and>
   (fst (capture_heatmap w s) = Inr () \<longrightarrow> dated (snd (capture_heatmap w s)) \<noteq> None) \<and>
   (page_shot_ok w \<longrightarrow>
      fst (capture_heatmap (w\<lparr>element_shot_ok := f\<rparr>) s) = fst (capture_heatmap w s)) \<and>
   (fst (capture_heatmap w s) = Inl (Raised PageScreenshot) \<longleftrightarrow>
      playwright_ok w \<and> launch_ok w \<and> context_ok w \<and> page_ok w \<and> script_ok w \<and>
      ((\<exists>i \<in> {1..3}. goto_ok w i \<and> idle_ok w i) \<or> fallback_ok w) \<and>
      \<not> (\<exists>sel \<in> set map_selectors. query w sel = Element \<and> element_shot_ok w sel) \<and>
      \<not> page_shot_ok w) \<and>
   dated (snd (capture_heatmap w start)) =
     (if playwright_ok w \<and> launch_ok w \<and> context_ok w \<and> page_ok w \<and> script_ok w \<and>
         ((\<exists>i \<in> {1..3}. goto_ok w i \<and> idle_ok w i) \<or> fallback_ok w)
      then (case find (\<lambda>sel. query w sel = Element \<and> element_shot_ok w sel) map_selectors of
              None \<Rightarrow> if page_shot_ok w then Some FullPage else None
            | Some sel \<Rightarrow> Some (Cropped sel))
      else None)"
proof (intro conjI impI)
  assume "fst (capture_heatmap w s) = Inr ()"
  then have pw: "playwright_ok w"
    by (cases "playwright_ok w") (auto simp: capture_heatmap_def call_def)
  with \<open>fst (capture_heatmap w s) = Inr ()\<close>
  have "fst (capture_session w (emit PlaywrightStart s)) = Inr ()"
    by (simp add: capture_heatmap_def call_def split_beta)
  from capture_session_dated [OF this] pw
  show "dated (snd (capture_heatmap w s)) \<noteq> None"
    by (simp add: capture_heatmap_def call_def split_beta)
next
  assume "page_shot_ok w"
  then show "fst (capture_heatmap (w\<lparr>element_shot_ok := f\<rparr>) s) = fst (capture_heatmap w s)"
    by (auto simp: capture_heatmap_result)
next
  define N where "N \<longleftrightarrow> (\<exists>i \<in> {1..3}. goto_ok w i \<and> idle_ok w i) \<or> fallback_ok w"
  define E where "E \<longleftrightarrow> (\<exists>sel \<in> set map_selectors. query w sel = Element \<and> element_shot_ok w sel)"
  have "fst (capture_heatmap w s) =
     (if \<not> playwright_ok w then Inl (Raised PlaywrightStart)
      else if \<not> launch_ok w then Inl (Raised Launch)
      else if \<not> context_ok w then Inl (Raised NewContext)
      else if \<not> page_ok w then Inl (Raised NewPage)
      else if \<not> script_ok w then Inl (Raised AddInitScript)
      else if \<not> N then Inl (Raised (Goto FINVIZ_URL (lit ''load'') 120000))
      else if \<not> (E \<or> page_shot_ok w) then Inl (Raised PageScreenshot)
      else if \<not> close_ok w then Inl (Raised BrowserClose)
      else Inr ())"
    unfolding N_def E_def by (rule capture_heatmap_result)
  then have "fst (capture_heatmap w s) = Inl (Raised PageScreenshot) \<longleftrightarrow>
      playwright_ok w \<and> launch_ok w \<and> context_ok w \<and> page_ok w \<and> script_ok w \<and> N \<and> \<not> E \<and>
      \<not> page_shot_ok w"
    by simp
  then show "fst (capture_heatmap w s) = Inl (Raised PageScreenshot) \<longleftrightarrow>
      playwright_ok w \<and> launch_ok w \<and> context_ok w \<and> page_ok w \<and> script_ok w \<and>
      ((\<exists>i \<in> {1..3}. goto_ok w i \<and> idle_ok w i) \<or> fallback_ok w) \<and>
      \<not> (\<exists>sel \<in> set map_selectors. query w sel = Element \<and> element_shot_ok w sel) \<and>
      \<not> page_shot_ok w"
    unfolding N_def E_def .
next
  show "dated (snd (capture_heatmap w start)) =
     (if playwright_ok w \<and> launch_ok w \<and> context_ok w \<and> page_ok w \<and> script_ok w \<and>
         ((\<exists>i \<in> {1..3}. goto_ok w i \<and> idle_ok w i) \<or> fallback_ok w)
      then (case find (\<lambda>sel. query w sel = Element \<and> element_shot_ok w sel) map_selectors of
              None \<Rightarrow> if page_shot_ok w then Some FullPage else None
            | Some sel \<Rightarrow> Some (Cropped sel))
      else None)"
  proof -
    have d: "dated start = None" by (simp add: start_def)
    show ?thesis by (simp only: capture_heatmap_dated_eq d)
  qed
qed (simp_all add: capture_heatmap_copy main_copy keep_latest_def Let_def)

text \<open>
  Claim C9 as stated says a failure writing the dated artifact is fatal and propagates.
  Here every selector finds an element and every element screenshot, each of which
  writes the dated path, raises: the errors are swallowed, the full page is written and
  \<open>capture_heatmap\<close> returns.
\<close>

theorem latest_copy_failure_is_swallowed_counterexample:
  "\<not> element_shot_ok (calm\<lparr>query := \<lambda>sel. Element, element_shot_ok := \<lambda>sel. False\<rparr>) (lit ''#map'') \<and>
   ElementScreenshot (lit ''#map'') \<in> set (trace (snd (capture_heatmap
      (calm\<lparr>query := \<lambda>sel. Element, element_shot_ok := \<lambda>sel. False\<rparr>) start))) \<and>
   fst (capture_heatmap (calm\<lparr>query := \<lambda>sel. Element, element_shot_ok := \<lambda>sel. False\<rparr>) start)
     = Inr () \<and>
   dated (snd (capture_heatmap (calm\<lparr>query := \<lambda>sel. Element, element_shot_ok := \<lambda>sel. False\<rparr>) start))
     = Some FullPage"
  by (simp add: capture_heatmap_def capture_session_def open_page_def navigate_def
      three_attempts call_def calm_def start_def Let_def take_screenshot_def split_beta
      dismiss_calm map_selectors_def banner_selectors_def keep_latest_def emit_def)

lemma calm_capture: "fst (capture_heatmap calm s) = Inr ()"
  by (simp add: capture_heatmap_def capture_session_def open_page_def navigate_def
      three_attempts call_def calm_def Let_def take_screenshot_def split_beta
      element_loop_no_match dismiss_calm and_then_fst_snd)

lemma calm_main: "fst (main a b calm s) = Inr ()"
proof -
  have "gh_output calm = None" by (simp add: calm_def)
  then have out: "fst (write_output calm m s') = Inr ()" for m s'
    by (simp add: write_output_result)
  obtain d s1 where "read_google_sheet calm
      (emit (Print BannerRule) (emit (Print BannerTitle) (emit (Print BannerRule) s))) = (Inr d, s1)"
    by (simp add: read_google_sheet_def calm_def Let_def)
  then show ?thesis
    by (simp add: main_def Let_def fst_and_then calm_capture out)
qed

text \<open>
  A run in which everything but the copy succeeds: it returns, with the dated artifact
  written, and \<open>main\<close> reports success; and a run in which every element screenshot
  fails and the full-page screenshot works.
\<close>

theorem latest_copy_failure_is_swallowed_witness:
  "\<not> copy_ok (calm\<lparr>copy_ok := False\<rparr>) \<and>
   fst (capture_heatmap (calm\<lparr>copy_ok := False\<rparr>) start) = Inr () \<and>
   dated (snd (capture_heatmap (calm\<lparr>copy_ok := False\<rparr>) start)) \<noteq> None \<and>
   fst (main (lit ''$'') (lit ''$'') (calm\<lparr>copy_ok := False\<rparr>) start) = Inr () \<and>
   page_shot_ok calm \<and>
   fst (capture_heatmap (calm\<lparr>element_shot_ok := \<lambda>sel. False\<rparr>) start) = Inr ()"
proof -
  have t: "calm\<lparr>copy_ok := True\<rparr> = calm" by (simp add: calm_def)
  note h = latest_copy_failure_is_swallowed [where w = calm and s = start and a = "lit ''$''"
      and b = "lit ''$''" and f = "\<lambda>sel. False", unfolded t]
  note k = latest_copy_failure_is_swallowed [where w = "calm\<lparr>copy_ok := False\<rparr>" and s = start]
  have p: "page_shot_ok calm" by (simp add: calm_def)
  have 1: "fst (capture_heatmap (calm\<lparr>copy_ok := False\<rparr>) start) = Inr ()"
    using h [THEN conjunct1] by (simp add: calm_capture)
  have 2: "fst (main (lit ''$'') (lit ''$'') (calm\<lparr>copy_ok := False\<rparr>) start) = Inr ()"
    using h [THEN conjunct2, THEN conjunct2, THEN conjunct1] by (simp add: calm_main)
  have 3: "dated (snd (capture_heatmap (calm\<lparr>copy_ok := False\<rparr>) start)) \<noteq> None"
    using k 1 by blast
  have 4: "fst (capture_heatmap (calm\<lparr>element_shot_ok := \<lambda>sel. False\<rparr>) start) = Inr ()"
    using h p by (simp add: calm_capture)
  show ?thesis using 1 2 3 4 p by simp
qed

end
